(* ===== verification/Prelude.thy ===== *)
theory Prelude
  imports Main "HOL-Library.Word" "HOL-Library.Char_ord" "HOL-Library.List_Lexorder"
begin

text \<open>
  What every component of the Astaire and Rogers model shares: the machine types of the
  source, the outcome of a call that may throw or block, \<open>std::string::substr\<close> and
  \<open>std::to_string\<close>, \<open>std::map\<close> as a strictly sorted association list, and the bytes of
  an unsigned integer in memory. The theorem collections of the development are declared here.
\<close>

section \<open>Types and theorem collections\<close>

unbundle bit_operations_syntax

type_synonym byte = "8 word"
type_synonym u8 = "8 word"
type_synonym u16 = "16 word"
type_synonym u32 = "32 word"
type_synonym u64 = "64 word"
type_synonym bytes = "byte list"
type_synonym server = string
type_synonym vbucket = u16

named_theorems wire_simps \<open>reading and writing header fields\<close>
named_theorems smap_simps \<open>lookup, domain and order of std::map operations\<close>
named_theorems stat_simps \<open>unfolding of the statistics operations\<close>

section \<open>Outcomes of calls\<close>

text \<open>
  A call returns a value, throws \<open>std::out_of_range\<close> (which nothing in the program catches),
  dereferences a null pointer, blocks in a system call that never returns, or ends the process
  with an exit code.
\<close>

datatype 'a outcome = Returns 'a | Throws | NullDeref | Blocks | Exits int

fun bind_outcome :: "'a outcome \<Rightarrow> ('a \<Rightarrow> 'b outcome) \<Rightarrow> 'b outcome" where
  "bind_outcome (Returns x) f = f x"
| "bind_outcome Throws f = Throws"
| "bind_outcome NullDeref f = NullDeref"
| "bind_outcome Blocks f = Blocks"
| "bind_outcome (Exits rc) f = Exits rc"

lemma bind_outcome_cong [fundef_cong]:
  "c = c' \<Longrightarrow> (\<And>x. c' = Returns x \<Longrightarrow> f x = g x) \<Longrightarrow> bind_outcome c f = bind_outcome c' g"
  by (cases c') auto

lemma bind_outcome_Returns_iff:
  "bind_outcome c f = Returns y \<longleftrightarrow> (\<exists>x. c = Returns x \<and> f x = Returns y)"
  by (cases c) auto

text \<open>
  A call that neither crashes on a null pointer, nor blocks, nor ends the process, and whose result satisfies \<open>P\<close>;
  an exception is still possible.
\<close>

fun safe_outcome :: "('a \<Rightarrow> bool) \<Rightarrow> 'a outcome \<Rightarrow> bool" where
  "safe_outcome P (Returns x) \<longleftrightarrow> P x"
| "safe_outcome P Throws \<longleftrightarrow> True"
| "safe_outcome P NullDeref \<longleftrightarrow> False"
| "safe_outcome P Blocks \<longleftrightarrow> False"
| "safe_outcome P (Exits rc) \<longleftrightarrow> False"

lemma safe_outcome_bind:
  "safe_outcome P c \<Longrightarrow> (\<And>x. c = Returns x \<Longrightarrow> P x \<Longrightarrow> safe_outcome Q (f x)) \<Longrightarrow>
     safe_outcome Q (bind_outcome c f)"
  by (cases c) auto

lemma safe_outcome_mono:
  "safe_outcome P c \<Longrightarrow> (\<And>x. c = Returns x \<Longrightarrow> P x \<Longrightarrow> Q x) \<Longrightarrow> safe_outcome Q c"
  by (cases c) auto

lemma safe_outcome_ReturnsD: "safe_outcome P c \<Longrightarrow> c = Returns x \<Longrightarrow> P x"
  by auto

section \<open>std::string\<close>

text \<open>\<open>s.substr(pos, n)\<close>: throws when \<open>pos\<close> is past the end, and stops at the end.\<close>

definition substr :: "'a list \<Rightarrow> nat \<Rightarrow> nat \<Rightarrow> 'a list outcome" where
  "substr s pos n = (if pos > length s then Throws else Returns (take n (drop pos s)))"

lemma substr_append [simp]:
  "pos = length a \<Longrightarrow> n = length b \<Longrightarrow> substr (a @ b @ c) pos n = Returns b"
  by (simp add: substr_def)

lemma substr_in_range: "pos \<le> length s \<Longrightarrow> substr s pos n = Returns (take n (drop pos s))"
  by (simp add: substr_def)

text \<open>\<open>std::to_string\<close> on an unsigned and on a signed integer.\<close>

definition digit_char :: "nat \<Rightarrow> char" where
  "digit_char d = char_of (48 + d)"

fun to_string :: "nat \<Rightarrow> string" where
  "to_string n = (if n < 10 then [digit_char n] else to_string (n div 10) @ [digit_char (n mod 10)])"

declare to_string.simps [simp del]

definition to_string_int :: "int \<Rightarrow> string" where
  "to_string_int i = (if i < 0 then CHR ''-'' # to_string (nat (- i)) else to_string (nat i))"

definition digit_val :: "char \<Rightarrow> nat" where
  "digit_val c = of_char c - 48"

definition decimal :: "string \<Rightarrow> nat" where
  "decimal s = foldl (\<lambda>n c. 10 * n + digit_val c) 0 s"

lemma digit_val_digit_char: "d < 10 \<Longrightarrow> digit_val (digit_char d) = d"
  by (simp add: digit_val_def digit_char_def)

text \<open>The decimal printed for a number reads back as that number.\<close>

lemma decimal_to_string: "decimal (to_string n) = n"
proof (induction n rule: to_string.induct)
  case (1 n)
  then show ?case
    by (cases "n < 10")
      (simp_all add: to_string.simps [of n] decimal_def digit_val_digit_char)
qed

lemma to_string_inj: "to_string m = to_string n \<Longrightarrow> m = n"
  by (metis decimal_to_string)

section \<open>std::map\<close>

text \<open>
  A \<open>std::map\<close> is an association list whose keys strictly increase: iteration goes over it
  from left to right, as the C++ iterators do. \<open>map_of\<close> is \<open>find\<close>, \<open>smap_upd\<close> is
  \<open>m[k] = v\<close>, and \<open>smap_get d m k\<close> is the value \<open>m[k]\<close> reads, with \<open>d\<close> the
  default-constructed value of the mapped type.
\<close>

type_synonym ('k, 'v) smap = "('k \<times> 'v) list"

fun smap_upd :: "'k::linorder \<Rightarrow> 'v \<Rightarrow> ('k, 'v) smap \<Rightarrow> ('k, 'v) smap" where
  "smap_upd k v [] = [(k, v)]"
| "smap_upd k v (e # m) =
     (if k = fst e then (k, v) # m
      else if k < fst e then (k, v) # e # m
      else e # smap_upd k v m)"

definition smap_get :: "'v \<Rightarrow> ('k, 'v) smap \<Rightarrow> 'k \<Rightarrow> 'v" where
  "smap_get d m k = (case map_of m k of None \<Rightarrow> d | Some v \<Rightarrow> v)"

definition smap_ok :: "('k::linorder, 'v) smap \<Rightarrow> bool" where
  "smap_ok m \<longleftrightarrow> sorted_wrt (<) (map fst m)"

lemma smap_ok_Nil [simp, smap_simps]: "smap_ok []"
  by (simp add: smap_ok_def)

lemma smap_ok_Cons [smap_simps]:
  "smap_ok (e # m) \<longleftrightarrow> (\<forall>k \<in> fst ` set m. fst e < k) \<and> smap_ok m"
  by (auto simp: smap_ok_def)

lemma keys_smap_upd [simp, smap_simps]: "fst ` set (smap_upd k v m) = insert k (fst ` set m)"
  by (induction m) auto

lemma map_of_smap_upd [simp, smap_simps]: "map_of (smap_upd k v m) = (map_of m)(k \<mapsto> v)"
  by (induction m) (auto simp: fun_eq_iff)

lemma smap_ok_upd [simp, smap_simps]: "smap_ok m \<Longrightarrow> smap_ok (smap_upd k v m)"
  by (induction m) (auto simp: smap_ok_Cons)

lemma smap_ok_distinct: "smap_ok m \<Longrightarrow> distinct (map fst m)"
  by (induction m) (auto simp: smap_ok_Cons)

lemma smap_ok_map_snd [simp, smap_simps]:
  "(\<And>e. fst (f e) = fst e) \<Longrightarrow> smap_ok (map f m) \<longleftrightarrow> smap_ok m"
  by (simp add: smap_ok_def comp_def)

lemma smap_map_of_iff: "smap_ok m \<Longrightarrow> map_of m k = Some v \<longleftrightarrow> (k, v) \<in> set m"
  by (simp add: smap_ok_distinct)

text \<open>
  The interface the loops rely on: what a map built by a sequence of insertions holds. It is
  stated over any map with the laws of one insertion, and interpreted below on \<open>smap\<close>.
\<close>

locale key_map =
  fixes empty_map :: 'm
    and insert_map :: "'k \<Rightarrow> 'v \<Rightarrow> 'm \<Rightarrow> 'm"
    and find_map :: "'m \<Rightarrow> 'k \<Rightarrow> 'v option"
    and map_inv :: "'m \<Rightarrow> bool"
  assumes find_empty: "find_map empty_map k = None"
    and find_insert: "find_map (insert_map k v m) k' = (if k' = k then Some v else find_map m k')"
    and inv_empty: "map_inv empty_map"
    and inv_insert: "map_inv m \<Longrightarrow> map_inv (insert_map k v m)"
begin

lemma inv_insert_all: "map_inv m \<Longrightarrow> map_inv (fold (\<lambda>(k, v). insert_map k v) kvs m)"
  by (induction kvs arbitrary: m) (auto simp: inv_insert)

lemma find_insert_all:
  "find_map (fold (\<lambda>(k, v). insert_map k v) kvs m) k =
     (case map_of (rev kvs) k of None \<Rightarrow> find_map m k | Some v \<Rightarrow> Some v)"
  by (induction kvs arbitrary: m)
    (auto simp: find_insert map_add_def split: option.splits)

lemma find_insert_all_empty:
  "distinct (map fst kvs) \<Longrightarrow>
     find_map (fold (\<lambda>(k, v). insert_map k v) kvs empty_map) k = map_of kvs k"
proof -
  assume "distinct (map fst kvs)"
  then have "map_of (rev kvs) = map_of kvs"
    by (subst map_of_inject_set) (simp_all add: rev_map [symmetric])
  then show ?thesis
    by (simp add: find_insert_all find_empty split: option.splits)
qed

end

interpretation smap: key_map "[]" smap_upd map_of smap_ok
  by unfold_locales auto

section \<open>Unsigned integers in memory\<close>

text \<open>
  The bytes of an unsigned integer from the least significant to the most significant one, and
  back. \<open>mem_bytes\<close> is the object representation on a host of either byte order, \<open>mem_load\<close>
  reads it back.
\<close>

datatype endian = LittleEndian | BigEndian

definition le_bytes :: "'a::len word \<Rightarrow> bytes" where
  "le_bytes w = map (\<lambda>i. ucast (drop_bit (8 * i) w)) [0..<LENGTH('a) div 8]"

fun of_le_bytes :: "bytes \<Rightarrow> 'a::len word" where
  "of_le_bytes [] = 0"
| "of_le_bytes (b # bs) = ucast b OR push_bit 8 (of_le_bytes bs)"

abbreviation be_bytes :: "'a::len word \<Rightarrow> bytes" where
  "be_bytes w \<equiv> rev (le_bytes w)"

abbreviation of_be_bytes :: "bytes \<Rightarrow> 'a::len word" where
  "of_be_bytes bs \<equiv> of_le_bytes (rev bs)"

definition mem_bytes :: "endian \<Rightarrow> 'a::len word \<Rightarrow> bytes" where
  "mem_bytes e w = (case e of LittleEndian \<Rightarrow> le_bytes w | BigEndian \<Rightarrow> be_bytes w)"

definition mem_load :: "endian \<Rightarrow> bytes \<Rightarrow> 'a::len word" where
  "mem_load e bs = (case e of LittleEndian \<Rightarrow> of_le_bytes bs | BigEndian \<Rightarrow> of_be_bytes bs)"

definition bswap :: "'a::len word \<Rightarrow> 'a word" where
  "bswap w = of_be_bytes (le_bytes w)"

lemma length_le_bytes [simp]: "length (le_bytes (w :: 'a::len word)) = LENGTH('a) div 8"
  by (simp add: le_bytes_def)

lemma bit_of_le_bytes:
  "bit (of_le_bytes bs :: 'a::len word) n \<longleftrightarrow>
     n < LENGTH('a) \<and> n div 8 < length bs \<and> bit (bs ! (n div 8)) (n mod 8)"
proof (induction bs arbitrary: n)
  case (Cons b bs)
  show ?case
  proof (cases "n < 8")
    case True
    then show ?thesis by (auto simp: bit_simps)
  next
    case False
    have "bit (of_le_bytes bs :: 'a word) (n - 8) \<longleftrightarrow>
      n - 8 < LENGTH('a) \<and> (n - 8) div 8 < length bs \<and> bit (bs ! ((n - 8) div 8)) (n mod 8)"
      using Cons.IH [of "n - 8"] False by (simp add: le_mod_geq)
    with False show ?thesis
      by (auto simp: bit_simps le_div_geq dest: bit_imp_le_length)
  qed
qed simp

lemma nth_le_bytes:
  "i < LENGTH('a) div 8 \<Longrightarrow> le_bytes (w :: 'a::len word) ! i = ucast (drop_bit (8 * i) w)"
  by (simp add: le_bytes_def)

lemma of_le_bytes_le_bytes:
  assumes "8 dvd LENGTH('a::len)"
  shows "of_le_bytes (le_bytes w) = (w :: 'a word)"
proof (rule bit_word_eqI)
  fix n assume n: "n < LENGTH('a)"
  with assms have "n div 8 < LENGTH('a) div 8"
    by (simp add: less_mult_imp_div_less dvd_div_mult_self)
  with n show "bit (of_le_bytes (le_bytes w) :: 'a word) n = bit w n"
    by (simp add: bit_of_le_bytes nth_le_bytes bit_simps)
qed

lemma le_bytes_of_le_bytes:
  assumes "length bs = LENGTH('a::len) div 8"
  shows "le_bytes (of_le_bytes bs :: 'a word) = bs"
proof (rule nth_equalityI)
  fix i assume "i < length (le_bytes (of_le_bytes bs :: 'a word))"
  then have i: "i < LENGTH('a) div 8" by simp
  show "le_bytes (of_le_bytes bs :: 'a word) ! i = bs ! i"
  proof (rule bit_word_eqI)
    fix n assume "n < LENGTH(8)"
    then have n: "n < 8" by simp
    then have "8 * i + n < LENGTH('a)" and "(8 * i + n) div 8 = i" and "(8 * i + n) mod 8 = n"
      using i by auto
    with n i assms show "bit (le_bytes (of_le_bytes bs :: 'a word) ! i) n = bit (bs ! i) n"
      by (simp add: nth_le_bytes bit_simps bit_of_le_bytes)
  qed
qed (simp add: assms)

lemma mem_load_mem_bytes [simp]:
  "8 dvd LENGTH('a::len) \<Longrightarrow> mem_load e (mem_bytes e w) = (w :: 'a word)"
  by (cases e) (simp_all add: mem_load_def mem_bytes_def of_le_bytes_le_bytes)

lemma le_bytes_bswap [simp]: "le_bytes (bswap w) = be_bytes w"
  by (simp add: bswap_def le_bytes_of_le_bytes)

lemma le_bytes_or_push:
  fixes lo hi :: u32
  shows "le_bytes ((ucast lo :: u64) OR push_bit 32 (ucast hi)) = le_bytes lo @ le_bytes hi"
proof (rule nth_equalityI)
  fix i assume "i < length (le_bytes ((ucast lo :: u64) OR push_bit 32 (ucast hi)))"
  then have i: "i < 8" by simp
  show "le_bytes ((ucast lo :: u64) OR push_bit 32 (ucast hi)) ! i = (le_bytes lo @ le_bytes hi) ! i"
  proof (rule bit_word_eqI)
    fix n assume "n < LENGTH(8)"
    then show "bit (le_bytes ((ucast lo :: u64) OR push_bit 32 (ucast hi)) ! i) n =
        bit ((le_bytes lo @ le_bytes hi) ! i) n"
      using i
      by (cases "i < 4")
        (auto simp: nth_append nth_le_bytes bit_simps not_less le_iff_add dest: bit_imp_le_length)
  qed
qed simp

lemma le_bytes_split: 
  "le_bytes (v :: u64) = le_bytes (ucast v :: u32) @ le_bytes (ucast (drop_bit 32 v) :: u32)"
proof (rule nth_equalityI)
  fix i assume "i < length (le_bytes v)"
  then have i: "i < 8" by simp
  show "le_bytes v ! i = (le_bytes (ucast v :: u32) @ le_bytes (ucast (drop_bit 32 v) :: u32)) ! i"
  proof (rule bit_word_eqI)
    fix n assume "n < LENGTH(8)"
    then show "bit (le_bytes v ! i) n =
        bit ((le_bytes (ucast v :: u32) @ le_bytes (ucast (drop_bit 32 v) :: u32)) ! i) n"
      using i
      by (cases "i < 4")
        (auto simp: nth_append nth_le_bytes bit_simps not_less le_iff_add add_ac)
  qed
qed simp

lemma unat_and_127: "unat (w AND 127 :: u32) = unat w mod 128"
proof -
  have "w AND 127 = take_bit 7 w" by (simp add: take_bit_eq_mask mask_eq_exp_minus_1)
  then show ?thesis by (simp add: unsigned_take_bit_eq take_bit_nat_def)
qed

lemma sint_word_of_int_u32:
  "- (2 ^ 31) \<le> d \<Longrightarrow> d < 2 ^ 31 \<Longrightarrow> sint (word_of_int d :: u32) = d"
  by (simp add: sint_sbintrunc' signed_take_bit_int_eq_self)

lemma unat_of_nat_u32: "n < 2 ^ 32 \<Longrightarrow> unat (of_nat n :: u32) = n"
  by (simp add: unat_of_nat)

lemma unat_of_nat_u16: "n < 2 ^ 16 \<Longrightarrow> unat (of_nat n :: u16) = n"
  by (simp add: unat_of_nat)

lemma unat_of_nat_u8: "n < 2 ^ 8 \<Longrightarrow> unat (of_nat n :: u8) = n"
  by (simp add: unat_of_nat)

end
