(* ===== verification/Wire.thy ===== *)
theory Wire
  imports Prelude
begin

text \<open>
  The memcached binary protocol of \<open>memcached_tap_client.hpp\<close> and the message half of
  \<open>memcached_tap_client.cpp\<close>: byte order, the fixed header, the message classes with their
  constructors, serialisation (\<open>to_wire\<close>) and parsing (\<open>is_msg_complete\<close>, \<open>from_wire\<close>).

  A parser reads \<open>((uint32_t*)extra.data())[i]\<close> without checking the length of \<open>extra\<close>; the
  parameter \<open>oob i\<close> is the unspecified value such a read yields when it runs past the end.
  Every lemma holds for all values of it.
\<close>

section \<open>Byte order\<close>

text \<open>The hosts the program is built for define \<open>BOOST_LITTLE_ENDIAN\<close>.\<close>

definition host_endian :: endian where
  "host_endian = LittleEndian"

definition htons :: "endian \<Rightarrow> u16 \<Rightarrow> u16" where
  "htons e v = (case e of LittleEndian \<Rightarrow> bswap v | BigEndian \<Rightarrow> v)"

definition htonl :: "endian \<Rightarrow> u32 \<Rightarrow> u32" where
  "htonl e v = (case e of LittleEndian \<Rightarrow> bswap v | BigEndian \<Rightarrow> v)"

definition host_to_network8 :: "endian \<Rightarrow> u8 \<Rightarrow> u8" where
  "host_to_network8 e v = v"

definition host_to_network16 :: "endian \<Rightarrow> u16 \<Rightarrow> u16" where
  "host_to_network16 e v = htons e v"

definition host_to_network32 :: "endian \<Rightarrow> u32 \<Rightarrow> u32" where
  "host_to_network32 e v = htonl e v"

definition host_to_network64 :: "endian \<Rightarrow> u64 \<Rightarrow> u64" where
  "host_to_network64 e v =
     (case e of
        LittleEndian \<Rightarrow>
          (let low = ucast (htonl e (ucast (drop_bit 32 v))) :: u64;
               high = ucast (htonl e (ucast (v AND 0xFFFFFFFF))) :: u64
           in low OR push_bit 32 high)
      | BigEndian \<Rightarrow> v)"

definition network_to_host8 :: "endian \<Rightarrow> u8 \<Rightarrow> u8" where
  "network_to_host8 e v = v"

definition network_to_host16 :: "endian \<Rightarrow> u16 \<Rightarrow> u16" where
  "network_to_host16 e v = htons e v"

definition network_to_host32 :: "endian \<Rightarrow> u32 \<Rightarrow> u32" where
  "network_to_host32 e v = htonl e v"

definition network_to_host64 :: "endian \<Rightarrow> u64 \<Rightarrow> u64" where
  "network_to_host64 e v = host_to_network64 e v"

text \<open>\<open>Utils::write\<close> appends the object representation of the converted value.\<close>

definition write_str :: "bytes \<Rightarrow> bytes \<Rightarrow> bytes" where
  "write_str str ss = ss @ str"

definition write_u8 :: "endian \<Rightarrow> u8 \<Rightarrow> bytes \<Rightarrow> bytes" where
  "write_u8 e v ss = ss @ mem_bytes e (host_to_network8 e v)"

definition write_u16 :: "endian \<Rightarrow> u16 \<Rightarrow> bytes \<Rightarrow> bytes" where
  "write_u16 e v ss = ss @ mem_bytes e (host_to_network16 e v)"

definition write_u32 :: "endian \<Rightarrow> u32 \<Rightarrow> bytes \<Rightarrow> bytes" where
  "write_u32 e v ss = ss @ mem_bytes e (host_to_network32 e v)"

definition write_u64 :: "endian \<Rightarrow> u64 \<Rightarrow> bytes \<Rightarrow> bytes" where
  "write_u64 e v ss = ss @ mem_bytes e (host_to_network64 e v)"

section \<open>Enumerations and the header\<close>

datatype OpCode =
  GET | SET | ADD | REPLACE | DELETE | QUIT | VERSION | GETK | TAP_CONNECT | TAP_MUTATE | SET_VBUCKET

fun op_byte :: "OpCode \<Rightarrow> u8" where
  "op_byte GET = 0x00"
| "op_byte SET = 0x01"
| "op_byte ADD = 0x02"
| "op_byte REPLACE = 0x03"
| "op_byte DELETE = 0x04"
| "op_byte QUIT = 0x07"
| "op_byte VERSION = 0x0b"
| "op_byte GETK = 0x0c"
| "op_byte TAP_CONNECT = 0x40"
| "op_byte TAP_MUTATE = 0x41"
| "op_byte SET_VBUCKET = 0x3d"

datatype ResultCode =
  NO_ERROR | KEY_NOT_FOUND | KEY_EXISTS | VALUE_TOO_LARGE | INVALID_ARGUMENTS | ITEM_NOT_STORED
| INCR_DECR_ON_NON_NUMERIC_VALUE | THE_VBUCKET_BELONGS_TO_ANOTHER_SERVER | AUTHENTICATION_ERROR
| AUTHENTICATION_CONTINUE | UNKNOWN_COMMAND | OUT_OF_MEMORY | NOT_SUPPORTED | INTERNAL_ERROR
| BUSY | TEMPORARY_FAILURE

fun result_u16 :: "ResultCode \<Rightarrow> u16" where
  "result_u16 NO_ERROR = 0x0000"
| "result_u16 KEY_NOT_FOUND = 0x0001"
| "result_u16 KEY_EXISTS = 0x0002"
| "result_u16 VALUE_TOO_LARGE = 0x0003"
| "result_u16 INVALID_ARGUMENTS = 0x0004"
| "result_u16 ITEM_NOT_STORED = 0x0005"
| "result_u16 INCR_DECR_ON_NON_NUMERIC_VALUE = 0x0006"
| "result_u16 THE_VBUCKET_BELONGS_TO_ANOTHER_SERVER = 0x0007"
| "result_u16 AUTHENTICATION_ERROR = 0x0008"
| "result_u16 AUTHENTICATION_CONTINUE = 0x0009"
| "result_u16 UNKNOWN_COMMAND = 0x0081"
| "result_u16 OUT_OF_MEMORY = 0x0082"
| "result_u16 NOT_SUPPORTED = 0x0083"
| "result_u16 INTERNAL_ERROR = 0x0084"
| "result_u16 BUSY = 0x0085"
| "result_u16 TEMPORARY_FAILURE = 0x0086"

datatype VBucketStatus = ACTIVE | REPLICA | PENDING | DEAD

fun vbucket_status_u32 :: "VBucketStatus \<Rightarrow> u32" where
  "vbucket_status_u32 ACTIVE = 0x01"
| "vbucket_status_u32 REPLICA = 0x02"
| "vbucket_status_u32 PENDING = 0x03"
| "vbucket_status_u32 DEAD = 0x04"

text \<open>The \<open>Memcached::Status\<close> of a receive; \<open>St_\<close> keeps the names apart from the other enums.\<close>

datatype Status = St_OK | St_DISCONNECTED | St_ERROR

text \<open>\<open>struct MsgHdr\<close>: its fields as they lie in memory, in network order.\<close>

record msg_hdr =
  h_magic :: u8
  h_op_code :: u8
  h_key_length :: u16
  h_extra_length :: u8
  h_data_type :: u8
  h_vbucket_or_status :: u16
  h_body_length :: u32
  h_opaque :: u32
  h_cas :: u64

definition sizeof_MsgHdr :: nat where
  "sizeof_MsgHdr = 24"

definition field_at :: "nat \<Rightarrow> nat \<Rightarrow> bytes \<Rightarrow> 'a::len word" where
  "field_at off n raw = mem_load host_endian (take n (drop off raw))"

text \<open>The cast \<open>(MsgHdr*)raw\<close>.\<close>

definition overlay :: "bytes \<Rightarrow> msg_hdr" where
  "overlay raw =
     \<lparr>h_magic = field_at 0 1 raw, h_op_code = field_at 1 1 raw, h_key_length = field_at 2 2 raw,
      h_extra_length = field_at 4 1 raw, h_data_type = field_at 5 1 raw,
      h_vbucket_or_status = field_at 6 2 raw, h_body_length = field_at 8 4 raw,
      h_opaque = field_at 12 4 raw, h_cas = field_at 16 8 raw\<rparr>"

text \<open>\<open>HDR_GET(raw, field)\<close>.\<close>

definition hdr_op_code :: "bytes \<Rightarrow> u8" where
  "hdr_op_code raw = network_to_host8 host_endian (h_op_code (overlay raw))"

definition hdr_key_length :: "bytes \<Rightarrow> u16" where
  "hdr_key_length raw = network_to_host16 host_endian (h_key_length (overlay raw))"

definition hdr_extra_length :: "bytes \<Rightarrow> u8" where
  "hdr_extra_length raw = network_to_host8 host_endian (h_extra_length (overlay raw))"

definition hdr_vbucket_or_status :: "bytes \<Rightarrow> u16" where
  "hdr_vbucket_or_status raw = network_to_host16 host_endian (h_vbucket_or_status (overlay raw))"

definition hdr_body_length :: "bytes \<Rightarrow> u32" where
  "hdr_body_length raw = network_to_host32 host_endian (h_body_length (overlay raw))"

definition hdr_opaque :: "bytes \<Rightarrow> u32" where
  "hdr_opaque raw = network_to_host32 host_endian (h_opaque (overlay raw))"

definition hdr_cas :: "bytes \<Rightarrow> u64" where
  "hdr_cas raw = network_to_host64 host_endian (h_cas (overlay raw))"

text \<open>\<open>network_to_host(((uint32_t*)extra.data())[i])\<close>.\<close>

definition load_u32 :: "(nat \<Rightarrow> u32) \<Rightarrow> bytes \<Rightarrow> nat \<Rightarrow> u32" where
  "load_u32 oob extra i =
     (if 4 * i + 4 \<le> length extra
      then network_to_host32 host_endian (field_at (4 * i) 4 extra)
      else oob i)"

section \<open>Messages\<close>

record base_message =
  m_op_code :: u8
  m_key :: bytes
  m_opaque :: u32
  m_cas :: u64

text \<open>
  One constructor per class: the \<open>BaseMessage\<close> part, the vbucket (requests) or status
  (responses), and the fields of the subclass. \<open>SetRsp\<close>, \<open>AddRsp\<close> and \<open>ReplaceRsp\<close> are
  typedefs of \<open>SetAddReplaceRsp\<close>; the three write requests carry value, flags and expiry.
\<close>

datatype message =
    BaseReq base_message u16
  | GetReq base_message u16
  | DeleteReq base_message u16
  | VersionReq base_message u16
  | SetReq base_message u16 bytes u32 u32
  | AddReq base_message u16 bytes u32 u32
  | ReplaceReq base_message u16 bytes u32 u32
  | TapConnectReq base_message u16 "vbucket list"
  | TapMutateReq base_message u16 bytes u32 u32
  | SetVBucketReq base_message u16 VBucketStatus
  | BaseRsp base_message u16
  | GetRsp base_message u16 bytes u32
  | SetAddReplaceRsp base_message u16
  | DeleteRsp base_message u16
  | VersionRsp base_message u16 bytes

fun msg_base :: "message \<Rightarrow> base_message" where
  "msg_base (BaseReq b _) = b"
| "msg_base (GetReq b _) = b"
| "msg_base (DeleteReq b _) = b"
| "msg_base (VersionReq b _) = b"
| "msg_base (SetReq b _ _ _ _) = b"
| "msg_base (AddReq b _ _ _ _) = b"
| "msg_base (ReplaceReq b _ _ _ _) = b"
| "msg_base (TapConnectReq b _ _) = b"
| "msg_base (TapMutateReq b _ _ _ _) = b"
| "msg_base (SetVBucketReq b _ _) = b"
| "msg_base (BaseRsp b _) = b"
| "msg_base (GetRsp b _ _ _) = b"
| "msg_base (SetAddReplaceRsp b _) = b"
| "msg_base (DeleteRsp b _) = b"
| "msg_base (VersionRsp b _ _) = b"

fun is_response :: "message \<Rightarrow> bool" where
  "is_response (BaseRsp _ _) = True"
| "is_response (GetRsp _ _ _ _) = True"
| "is_response (SetAddReplaceRsp _ _) = True"
| "is_response (DeleteRsp _ _) = True"
| "is_response (VersionRsp _ _ _) = True"
| "is_response _ = False"

definition is_request :: "message \<Rightarrow> bool" where
  "is_request m \<longleftrightarrow> \<not> is_response m"

definition op_code :: "message \<Rightarrow> u8" where
  "op_code m = m_op_code (msg_base m)"

text \<open>\<open>generate_vbucket_or_status\<close>: \<open>_vbucket\<close> of a request, \<open>_status\<close> of a response.\<close>

fun generate_vbucket_or_status :: "message \<Rightarrow> u16" where
  "generate_vbucket_or_status (BaseReq _ v) = v"
| "generate_vbucket_or_status (GetReq _ v) = v"
| "generate_vbucket_or_status (DeleteReq _ v) = v"
| "generate_vbucket_or_status (VersionReq _ v) = v"
| "generate_vbucket_or_status (SetReq _ v _ _ _) = v"
| "generate_vbucket_or_status (AddReq _ v _ _ _) = v"
| "generate_vbucket_or_status (ReplaceReq _ v _ _ _) = v"
| "generate_vbucket_or_status (TapConnectReq _ v _) = v"
| "generate_vbucket_or_status (TapMutateReq _ v _ _ _) = v"
| "generate_vbucket_or_status (SetVBucketReq _ v _) = v"
| "generate_vbucket_or_status (BaseRsp _ s) = s"
| "generate_vbucket_or_status (GetRsp _ s _ _) = s"
| "generate_vbucket_or_status (SetAddReplaceRsp _ s) = s"
| "generate_vbucket_or_status (DeleteRsp _ s) = s"
| "generate_vbucket_or_status (VersionRsp _ s _) = s"

definition result_code :: "message \<Rightarrow> u16" where
  "result_code m = generate_vbucket_or_status m"

definition sar_extra :: "u32 \<Rightarrow> u32 \<Rightarrow> bytes" where
  "sar_extra flags expiry = write_u32 host_endian expiry (write_u32 host_endian flags [])"

definition tap_connect_extra :: "vbucket list \<Rightarrow> bytes" where
  "tap_connect_extra buckets =
     (let extra = 0x00000002;
          extra = (if buckets \<noteq> [] then extra OR 0x00000004 else extra)
      in write_u32 host_endian extra [])"

definition tap_connect_value :: "vbucket list \<Rightarrow> bytes" where
  "tap_connect_value buckets =
     (if buckets \<noteq> []
      then fold (write_u16 host_endian) buckets
             (write_u16 host_endian (of_nat (length buckets)) [])
      else [])"

fun generate_extra :: "message \<Rightarrow> bytes" where
  "generate_extra (GetRsp _ status _ flags) =
     (if status = result_u16 NO_ERROR then write_u32 host_endian flags [] else [])"
| "generate_extra (SetReq _ _ _ flags expiry) = sar_extra flags expiry"
| "generate_extra (AddReq _ _ _ flags expiry) = sar_extra flags expiry"
| "generate_extra (ReplaceReq _ _ _ flags expiry) = sar_extra flags expiry"
| "generate_extra (TapConnectReq _ _ buckets) = tap_connect_extra buckets"
| "generate_extra (SetVBucketReq _ _ status) = write_u32 host_endian (vbucket_status_u32 status) []"
| "generate_extra _ = []"

fun generate_value :: "message \<Rightarrow> bytes" where
  "generate_value (GetRsp _ _ v _) = v"
| "generate_value (SetReq _ _ v _ _) = v"
| "generate_value (AddReq _ _ v _ _) = v"
| "generate_value (ReplaceReq _ _ v _ _) = v"
| "generate_value (VersionRsp _ _ version) = version"
| "generate_value (TapConnectReq _ _ buckets) = tap_connect_value buckets"
| "generate_value _ = []"

definition to_wire :: "message \<Rightarrow> bytes" where
  "to_wire m =
     (let extra = generate_extra m;
          val = generate_value m;
          vbucket_or_status = generate_vbucket_or_status m;
          key = m_key (msg_base m);
          body_size = (of_nat (length extra + length key + length val) :: u32);
          magic_byte = (if is_request m then 0x80 else 0x81 :: u8);
          ss = write_u8 host_endian magic_byte [];
          ss = write_u8 host_endian (m_op_code (msg_base m)) ss;
          ss = write_u16 host_endian (of_nat (length key)) ss;
          ss = write_u8 host_endian (of_nat (length extra)) ss;
          ss = write_u8 host_endian 0x00 ss;
          ss = write_u16 host_endian vbucket_or_status ss;
          ss = write_u32 host_endian body_size ss;
          ss = write_u32 host_endian (m_opaque (msg_base m)) ss;
          ss = write_u64 host_endian (m_cas (msg_base m)) ss;
          ss = write_str extra ss;
          ss = write_str key ss;
          ss = write_str val ss
      in ss)"

section \<open>Constructors from arguments\<close>

definition base :: "OpCode \<Rightarrow> bytes \<Rightarrow> u32 \<Rightarrow> u64 \<Rightarrow> base_message" where
  "base opc key opaque cas = \<lparr>m_op_code = op_byte opc, m_key = key, m_opaque = opaque, m_cas = cas\<rparr>"

definition new_GetReq :: "bytes \<Rightarrow> u32 \<Rightarrow> message" where
  "new_GetReq key opaque = GetReq (base GET key opaque 0) 0"

definition new_DeleteReq :: "bytes \<Rightarrow> u32 \<Rightarrow> message" where
  "new_DeleteReq key opaque = DeleteReq (base DELETE key opaque 0) 0"

definition new_SetReq :: "bytes \<Rightarrow> u16 \<Rightarrow> bytes \<Rightarrow> u32 \<Rightarrow> u32 \<Rightarrow> message" where
  "new_SetReq key vb val flags expiry = SetReq (base SET key 0 0) vb val flags expiry"

definition new_AddReq :: "bytes \<Rightarrow> u16 \<Rightarrow> bytes \<Rightarrow> u32 \<Rightarrow> u32 \<Rightarrow> message" where
  "new_AddReq key vb val flags expiry = AddReq (base ADD key 0 0) vb val flags expiry"

definition new_ReplaceReq :: "bytes \<Rightarrow> u16 \<Rightarrow> bytes \<Rightarrow> u64 \<Rightarrow> u32 \<Rightarrow> u32 \<Rightarrow> message" where
  "new_ReplaceReq key vb val cas flags expiry =
     ReplaceReq (base REPLACE key 0 cas) vb val flags expiry"

definition new_TapConnectReq :: "vbucket list \<Rightarrow> message" where
  "new_TapConnectReq buckets = TapConnectReq (base TAP_CONNECT [] 0 0) 0 buckets"

definition new_SetVBucketReq :: "u16 \<Rightarrow> VBucketStatus \<Rightarrow> message" where
  "new_SetVBucketReq vb status = SetVBucketReq (base SET_VBUCKET [] 0 0) vb status"

text \<open>A key on a \<open>GetRsp\<close> turns it into a GETK response.\<close>

definition new_GetRsp :: "u16 \<Rightarrow> u32 \<Rightarrow> u64 \<Rightarrow> bytes \<Rightarrow> u32 \<Rightarrow> bytes \<Rightarrow> message" where
  "new_GetRsp status opaque cas val flags key =
     (let b = base GET [] opaque cas;
          b = (if key \<noteq> [] then b\<lparr>m_op_code := op_byte GETK, m_key := key\<rparr> else b)
      in GetRsp b status val flags)"

text \<open>The status parameter of these two constructors is a \<open>uint8_t\<close>.\<close>

definition new_SetAddReplaceRsp :: "u8 \<Rightarrow> u8 \<Rightarrow> u32 \<Rightarrow> u64 \<Rightarrow> message" where
  "new_SetAddReplaceRsp command status opaque cas =
     SetAddReplaceRsp \<lparr>m_op_code = command, m_key = [], m_opaque = opaque, m_cas = cas\<rparr> (ucast status)"

definition new_DeleteRsp :: "u8 \<Rightarrow> u32 \<Rightarrow> message" where
  "new_DeleteRsp status opaque = DeleteRsp (base DELETE [] opaque 0) (ucast status)"

definition new_VersionRsp :: "u16 \<Rightarrow> u32 \<Rightarrow> bytes \<Rightarrow> message" where
  "new_VersionRsp status opaque version = VersionRsp (base VERSION [] opaque 0) status version"

definition response_needs_key :: "base_message \<Rightarrow> bool" where
  "response_needs_key b \<longleftrightarrow> m_op_code b = op_byte GETK"

section \<open>Parsing\<close>

definition is_msg_complete :: "bytes \<Rightarrow> (bool \<times> u32 \<times> u8) option" where
  "is_msg_complete msg =
     (let raw_length = (of_nat (length msg) :: u32)
      in if unat raw_length < sizeof_MsgHdr then None
         else
           let request = (hd msg = 0x80);
               body_length = hdr_body_length msg
           in if unat raw_length < sizeof_MsgHdr + unat body_length then None
              else Some (request, body_length, hdr_op_code msg))"

definition parse_base :: "bytes \<Rightarrow> base_message outcome" where
  "parse_base msg =
     bind_outcome
       (substr msg (sizeof_MsgHdr + unat (hdr_extra_length msg)) (unat (hdr_key_length msg)))
       (\<lambda>key. Returns \<lparr>m_op_code = hdr_op_code msg, m_key = key,
                       m_opaque = hdr_opaque msg, m_cas = hdr_cas msg\<rparr>)"

text \<open>
  The value of a message: the count \<open>body_length - (extra_length + key_length)\<close> is computed
  on 32 bits and wraps when the header's lengths disagree.
\<close>

definition parse_value :: "bytes \<Rightarrow> bytes outcome" where
  "parse_value msg =
     substr msg (sizeof_MsgHdr + unat (hdr_extra_length msg) + unat (hdr_key_length msg))
       (unat (hdr_body_length msg - (ucast (hdr_extra_length msg) + ucast (hdr_key_length msg))))"

definition parse_extra :: "bytes \<Rightarrow> bytes outcome" where
  "parse_extra msg = substr msg sizeof_MsgHdr (unat (hdr_extra_length msg))"

definition parse_plain_req :: "(base_message \<Rightarrow> u16 \<Rightarrow> message) \<Rightarrow> bytes \<Rightarrow> message outcome" where
  "parse_plain_req c msg =
     bind_outcome (parse_base msg) (\<lambda>b. Returns (c b (hdr_vbucket_or_status msg)))"

definition parse_plain_rsp :: "(base_message \<Rightarrow> u16 \<Rightarrow> message) \<Rightarrow> bytes \<Rightarrow> message outcome" where
  "parse_plain_rsp c msg =
     bind_outcome (parse_base msg) (\<lambda>b. Returns (c b (hdr_vbucket_or_status msg)))"

definition parse_GetRsp :: "(nat \<Rightarrow> u32) \<Rightarrow> bytes \<Rightarrow> message outcome" where
  "parse_GetRsp oob msg =
     bind_outcome (parse_base msg) (\<lambda>b.
     bind_outcome (parse_extra msg) (\<lambda>extra.
     bind_outcome (parse_value msg) (\<lambda>val.
       Returns (GetRsp b (hdr_vbucket_or_status msg) val (load_u32 oob extra 0)))))"

definition parse_SetAddReplaceReq ::
  "(nat \<Rightarrow> u32) \<Rightarrow> (base_message \<Rightarrow> u16 \<Rightarrow> bytes \<Rightarrow> u32 \<Rightarrow> u32 \<Rightarrow> message) \<Rightarrow> bytes \<Rightarrow> message outcome" where
  "parse_SetAddReplaceReq oob c msg =
     bind_outcome (parse_base msg) (\<lambda>b.
     bind_outcome (parse_extra msg) (\<lambda>extra.
     bind_outcome (parse_value msg) (\<lambda>val.
       Returns (c b (hdr_vbucket_or_status msg) val (load_u32 oob extra 0) (load_u32 oob extra 1)))))"

definition parse_TapMutateReq :: "(nat \<Rightarrow> u32) \<Rightarrow> bytes \<Rightarrow> message outcome" where
  "parse_TapMutateReq oob msg =
     bind_outcome (parse_base msg) (\<lambda>b.
     bind_outcome (parse_extra msg) (\<lambda>extra.
     bind_outcome (parse_value msg) (\<lambda>val.
       Returns (TapMutateReq b (hdr_vbucket_or_status msg) val
                  (load_u32 oob extra 2) (load_u32 oob extra 3)))))"

text \<open>The two switches of \<open>from_wire\<close>.\<close>

definition parse_request :: "(nat \<Rightarrow> u32) \<Rightarrow> u8 \<Rightarrow> bytes \<Rightarrow> message outcome" where
  "parse_request oob opc msg =
     (if opc = op_byte TAP_MUTATE then parse_TapMutateReq oob msg
      else if opc = op_byte GET \<or> opc = op_byte GETK then parse_plain_req GetReq msg
      else if opc = op_byte SET then parse_SetAddReplaceReq oob SetReq msg
      else if opc = op_byte ADD then parse_SetAddReplaceReq oob AddReq msg
      else if opc = op_byte REPLACE then parse_SetAddReplaceReq oob ReplaceReq msg
      else if opc = op_byte DELETE then parse_plain_req DeleteReq msg
      else if opc = op_byte VERSION then parse_plain_req VersionReq msg
      else parse_plain_req BaseReq msg)"

definition parse_response :: "(nat \<Rightarrow> u32) \<Rightarrow> u8 \<Rightarrow> bytes \<Rightarrow> message outcome" where
  "parse_response oob opc msg =
     (if opc = op_byte GET then parse_GetRsp oob msg
      else if opc = op_byte ADD then parse_plain_rsp SetAddReplaceRsp msg
      else if opc = op_byte REPLACE then parse_plain_rsp SetAddReplaceRsp msg
      else parse_plain_rsp BaseRsp msg)"

text \<open>
  \<open>from_wire\<close> returns \<open>None\<close> when it needs more data, and the message with the trimmed
  buffer otherwise.
\<close>

definition from_wire :: "(nat \<Rightarrow> u32) \<Rightarrow> bytes \<Rightarrow> (message \<times> bytes) option outcome" where
  "from_wire oob msg =
     (case is_msg_complete msg of
        None \<Rightarrow> Returns None
      | Some (request, body_length, opc) \<Rightarrow>
          bind_outcome
            (if request then parse_request oob opc msg else parse_response oob opc msg)
            (\<lambda>output.
              bind_outcome (substr msg (sizeof_MsgHdr + unat body_length) (length msg))
                (\<lambda>rest. Returns (Some (output, rest)))))"

lemmas parse_defs =
  parse_plain_req_def parse_plain_rsp_def parse_GetRsp_def parse_SetAddReplaceReq_def
  parse_TapMutateReq_def parse_request_def parse_response_def

section \<open>Byte order does not matter\<close>

lemma le_bytes_u8 [simp]: "le_bytes (v :: u8) = [v]"
  by (simp add: le_bytes_def)

lemma host_to_network64_LE: "host_to_network64 LittleEndian v = bswap v"
proof -
  have "(0xFFFFFFFF :: u64) = mask 32"
    by (simp add: mask_eq_exp_minus_1)
  moreover have "ucast (v AND mask 32) = (ucast v :: u32)"
    by (rule bit_word_eqI) (simp add: bit_simps)
  ultimately have mask: "ucast (v AND 0xFFFFFFFF) = (ucast v :: u32)"
    by simp
  have "le_bytes (host_to_network64 LittleEndian v) = be_bytes v"
    unfolding host_to_network64_def htonl_def endian.case Let_def mask le_bytes_or_push le_bytes_bswap
    by (subst le_bytes_split [of v]) simp
  then have "of_le_bytes (le_bytes (host_to_network64 LittleEndian v)) = (of_be_bytes (le_bytes v) :: u64)"
    by simp
  then show ?thesis
    by (simp add: of_le_bytes_le_bytes bswap_def)
qed

lemmas byte_order_defs =
  host_to_network8_def host_to_network16_def host_to_network32_def
  network_to_host8_def network_to_host16_def network_to_host32_def network_to_host64_def
  htons_def htonl_def mem_bytes_def mem_load_def

lemma mem_bytes_host_to_network:
  "mem_bytes e (host_to_network8 e a) = be_bytes a"
  "mem_bytes e (host_to_network16 e b) = be_bytes b"
  "mem_bytes e (host_to_network32 e c) = be_bytes c"
  "mem_bytes e (host_to_network64 e d) = be_bytes d"
  by (cases e; simp add: byte_order_defs host_to_network64_LE;
      simp add: host_to_network64_def)+

lemma bswap_of_le_bytes:
  "length bs = LENGTH('a::len) div 8 \<Longrightarrow> bswap (of_le_bytes bs) = (of_be_bytes bs :: 'a word)"
  by (simp add: bswap_def le_bytes_of_le_bytes)

lemma network_to_host_mem_load:
  "length bs = 1 \<Longrightarrow> network_to_host8 e (mem_load e bs) = of_be_bytes bs"
  "length bs = 2 \<Longrightarrow> network_to_host16 e (mem_load e bs) = of_be_bytes bs"
  "length bs = 4 \<Longrightarrow> network_to_host32 e (mem_load e bs) = of_be_bytes bs"
  "length bs = 8 \<Longrightarrow> network_to_host64 e (mem_load e bs) = of_be_bytes bs"
  by (cases e; simp add: byte_order_defs host_to_network64_LE bswap_of_le_bytes length_Suc_conv;
      fastforce simp add: host_to_network64_def length_Suc_conv)+

lemma write_eq [simp]:
  "write_u8 e a ss = ss @ be_bytes a" "write_u16 e b ss = ss @ be_bytes b"
  "write_u32 e c ss = ss @ be_bytes c" "write_u64 e d ss = ss @ be_bytes d"
  "write_str t ss = ss @ t"
  by (simp_all only: write_u8_def write_u16_def write_u32_def write_u64_def write_str_def
      mem_bytes_host_to_network)

lemma of_be_bytes_be_bytes [simp]:
  "of_be_bytes (be_bytes (a :: u8)) = a" "of_be_bytes (be_bytes (b :: u16)) = b"
  "of_be_bytes (be_bytes (c :: u32)) = c" "of_be_bytes (be_bytes (d :: u64)) = d"
  by (simp_all add: of_le_bytes_le_bytes)

section \<open>The header of a message\<close>

text \<open>The 24 bytes of a header, as a reference for both directions.\<close>

definition hdr_bytes :: "u8 \<Rightarrow> u8 \<Rightarrow> u16 \<Rightarrow> u8 \<Rightarrow> u16 \<Rightarrow> u32 \<Rightarrow> u32 \<Rightarrow> u64 \<Rightarrow> bytes" where
  "hdr_bytes magic opc kl el vb bl opq cas =
     be_bytes magic @ be_bytes opc @ be_bytes kl @ be_bytes el @ be_bytes (0 :: u8) @ be_bytes vb @
     be_bytes bl @ be_bytes opq @ be_bytes cas"

lemma length_hdr_bytes [simp]: "length (hdr_bytes magic opc kl el vb bl opq cas) = 24"
  by (simp add: hdr_bytes_def)

lemma hd_hdr_bytes [simp]: "hd (hdr_bytes magic opc kl el vb bl opq cas @ body) = magic"
  by (simp add: hdr_bytes_def)

lemmas hdr_defs =
  hdr_op_code_def hdr_key_length_def hdr_extra_length_def hdr_vbucket_or_status_def
  hdr_body_length_def hdr_opaque_def hdr_cas_def overlay_def field_at_def

lemma hdr_fields [wire_simps]:
  "hdr_op_code (hdr_bytes magic opc kl el vb bl opq cas @ body) = opc"
  "hdr_key_length (hdr_bytes magic opc kl el vb bl opq cas @ body) = kl"
  "hdr_extra_length (hdr_bytes magic opc kl el vb bl opq cas @ body) = el"
  "hdr_vbucket_or_status (hdr_bytes magic opc kl el vb bl opq cas @ body) = vb"
  "hdr_body_length (hdr_bytes magic opc kl el vb bl opq cas @ body) = bl"
  "hdr_opaque (hdr_bytes magic opc kl el vb bl opq cas @ body) = opq"
  "hdr_cas (hdr_bytes magic opc kl el vb bl opq cas @ body) = cas"
  by (simp_all add: hdr_defs hdr_bytes_def network_to_host_mem_load of_le_bytes_le_bytes
      del: le_bytes_u8 of_le_bytes.simps)

lemma is_msg_complete_hdr [wire_simps]:
  "24 + length body < 2 ^ 32 \<Longrightarrow>
   is_msg_complete (hdr_bytes magic opc kl el vb bl opq cas @ body) =
     (if length body < unat bl then None else Some (magic = 0x80, bl, opc))"
  by (simp add: is_msg_complete_def Let_def hdr_fields sizeof_MsgHdr_def unat_of_nat_u32
      del: of_nat_add)

lemma to_wire_eq:
  "to_wire m =
     hdr_bytes (if is_request m then 0x80 else 0x81) (op_code m) (of_nat (length (m_key (msg_base m))))
       (of_nat (length (generate_extra m))) (generate_vbucket_or_status m)
       (of_nat (length (generate_extra m) + length (m_key (msg_base m)) + length (generate_value m)))
       (m_opaque (msg_base m)) (m_cas (msg_base m))
     @ generate_extra m @ m_key (msg_base m) @ generate_value m"
  by (simp add: to_wire_def Let_def hdr_bytes_def op_code_def)

lemma length_to_wire:
  "length (to_wire m) =
     24 + length (generate_extra m) + length (m_key (msg_base m)) + length (generate_value m)"
  by (simp add: to_wire_eq)

lemma length_extra: "length (generate_extra m) \<in> {0, 4, 8}"
  by (cases m) (simp_all add: sar_extra_def tap_connect_extra_def Let_def)

lemma load_u32_be [simp]:
  "load_u32 oob (be_bytes a) 0 = a"
  "load_u32 oob (be_bytes a @ xs) 0 = a"
  "load_u32 oob (be_bytes a @ be_bytes b) (Suc 0) = b"
  by (simp_all add: load_u32_def field_at_def network_to_host_mem_load of_le_bytes_le_bytes)

lemma load_u32_Nil [simp]: "load_u32 oob [] i = oob i"
  by (simp add: load_u32_def)

section \<open>Round trip\<close>

text \<open>The op codes each class carries: the invariant of the class hierarchy.\<close>

fun op_matches :: "message \<Rightarrow> bool" where
  "op_matches (BaseReq b _) \<longleftrightarrow>
     m_op_code b \<notin> op_byte ` {TAP_MUTATE, GET, GETK, SET, ADD, REPLACE, DELETE, VERSION}"
| "op_matches (GetReq b _) \<longleftrightarrow> m_op_code b \<in> op_byte ` {GET, GETK}"
| "op_matches (DeleteReq b _) \<longleftrightarrow> m_op_code b = op_byte DELETE"
| "op_matches (VersionReq b _) \<longleftrightarrow> m_op_code b = op_byte VERSION"
| "op_matches (SetReq b _ _ _ _) \<longleftrightarrow> m_op_code b = op_byte SET"
| "op_matches (AddReq b _ _ _ _) \<longleftrightarrow> m_op_code b = op_byte ADD"
| "op_matches (ReplaceReq b _ _ _ _) \<longleftrightarrow> m_op_code b = op_byte REPLACE"
| "op_matches (TapConnectReq b _ _) \<longleftrightarrow> m_op_code b = op_byte TAP_CONNECT"
| "op_matches (TapMutateReq b _ _ _ _) \<longleftrightarrow> m_op_code b = op_byte TAP_MUTATE"
| "op_matches (SetVBucketReq b _ _) \<longleftrightarrow> m_op_code b = op_byte SET_VBUCKET"
| "op_matches (BaseRsp b _) \<longleftrightarrow> m_op_code b \<notin> op_byte ` {GET, ADD, REPLACE}"
| "op_matches (GetRsp b _ _ _) \<longleftrightarrow> m_op_code b \<in> op_byte ` {GET, GETK}"
| "op_matches (SetAddReplaceRsp b _) \<longleftrightarrow> m_op_code b \<in> op_byte ` {SET, ADD, REPLACE}"
| "op_matches (DeleteRsp b _) \<longleftrightarrow> m_op_code b = op_byte DELETE"
| "op_matches (VersionRsp b _ _) \<longleftrightarrow> m_op_code b = op_byte VERSION"

text \<open>
  What the receiver of a message makes of it: the class chosen by the op code alone, with the
  fields that class reads. A GETK, SET, DELETE or VERSION response becomes a plain \<open>BaseRsp\<close>,
  a \<open>TapMutateReq\<close> loses its value, and the flags of a failed GET are an out-of-bounds read.
\<close>

fun received :: "(nat \<Rightarrow> u32) \<Rightarrow> message \<Rightarrow> message" where
  "received oob (TapConnectReq b v _) = BaseReq b v"
| "received oob (SetVBucketReq b v _) = BaseReq b v"
| "received oob (TapMutateReq b v _ _ _) = TapMutateReq b v [] (oob 2) (oob 3)"
| "received oob (GetRsp b s val flags) =
     (if m_op_code b = op_byte GETK then BaseRsp b s
      else GetRsp b s val (if s = result_u16 NO_ERROR then flags else oob 0))"
| "received oob (SetAddReplaceRsp b s) =
     (if m_op_code b = op_byte SET then BaseRsp b s else SetAddReplaceRsp b s)"
| "received oob (DeleteRsp b s) = BaseRsp b s"
| "received oob (VersionRsp b s _) = BaseRsp b s"
| "received oob m = m"

text \<open>The messages whose receiver builds the same class with the same fields.\<close>

fun kept :: "message \<Rightarrow> bool" where
  "kept (TapConnectReq _ _ _) \<longleftrightarrow> False"
| "kept (SetVBucketReq _ _ _) \<longleftrightarrow> False"
| "kept (TapMutateReq _ _ _ _ _) \<longleftrightarrow> False"
| "kept (GetRsp b s _ _) \<longleftrightarrow> m_op_code b \<noteq> op_byte GETK \<and> s = result_u16 NO_ERROR"
| "kept (SetAddReplaceRsp b _) \<longleftrightarrow> m_op_code b \<noteq> op_byte SET"
| "kept (DeleteRsp _ _) \<longleftrightarrow> False"
| "kept (VersionRsp _ _ _) \<longleftrightarrow> False"
| "kept _ \<longleftrightarrow> True"

lemma kept_iff_received: "kept m \<longleftrightarrow> (\<forall>oob. received oob m = m)"
proof
  assume "\<forall>oob. received oob m = m"
  then have "received (\<lambda>_. 0) m = m" "received (\<lambda>_. 1) m = m" by simp_all
  then show "kept m" by (cases m) (auto split: if_splits)
qed (cases m; simp)

lemma received_header:
  "msg_base (received oob m) = msg_base m" "is_request (received oob m) = is_request m"
  "generate_vbucket_or_status (received oob m) = generate_vbucket_or_status m"
  by (cases m; simp add: is_request_def)+

lemma parse_parts:
  assumes raw: "raw = hdr_bytes magic opc (of_nat (length key)) (of_nat (length extra)) vb
      (of_nat (length extra + length key + length val)) opq cas @ extra @ key @ val @ rest"
    and key: "length key < 2 ^ 16" and extra: "length extra < 2 ^ 8"
    and len: "length extra + length key + length val < 2 ^ 32"
  shows "parse_base raw = Returns \<lparr>m_op_code = opc, m_key = key, m_opaque = opq, m_cas = cas\<rparr>"
    and "parse_extra raw = Returns extra"
    and "parse_value raw = Returns val"
    and "hdr_vbucket_or_status raw = vb"
proof -
  have k: "unat (of_nat (length key) :: u16) = length key"
    and e: "unat (of_nat (length extra) :: u8) = length extra"
    using key extra by (simp_all add: unat_of_nat_u16 unat_of_nat_u8 del: power.simps)
  have "ucast (of_nat (length extra) :: u8) + ucast (of_nat (length key) :: u16) =
      (of_nat (length extra + length key) :: u32)"
    by (metis e k of_nat_add of_nat_unat)
  then have "unat ((of_nat (length extra + length key + length val) :: u32) -
      (ucast (of_nat (length extra) :: u8) + ucast (of_nat (length key) :: u16))) = length val"
    using len by (simp add: unat_of_nat_u32)
  then show "parse_value raw = Returns val"
    unfolding raw parse_value_def hdr_fields k e sizeof_MsgHdr_def
    by (simp add: substr_def del: of_nat_add)
  show "parse_base raw = Returns \<lparr>m_op_code = opc, m_key = key, m_opaque = opq, m_cas = cas\<rparr>"
    unfolding raw parse_base_def hdr_fields k e sizeof_MsgHdr_def
    by (simp add: substr_def)
  show "parse_extra raw = Returns extra"
    unfolding raw parse_extra_def hdr_fields k e sizeof_MsgHdr_def
    by (simp add: substr_def)
  show "hdr_vbucket_or_status raw = vb"
    unfolding raw hdr_fields ..
qed

lemma base_message_eta:
  "\<lparr>m_op_code = m_op_code b, m_key = m_key b, m_opaque = m_opaque b, m_cas = m_cas b\<rparr> = b"
  by simp

lemma parse_dispatch:
  assumes "op_matches m" "parse_base raw = Returns (msg_base m)"
    "parse_extra raw = Returns (generate_extra m)" "parse_value raw = Returns (generate_value m)"
    "hdr_vbucket_or_status raw = generate_vbucket_or_status m"
  shows "(if is_request m then parse_request oob (op_code m) raw else parse_response oob (op_code m) raw)
    = Returns (received oob m)"
  using assms
  by (cases m) (auto simp: parse_defs is_request_def op_code_def sar_extra_def)

lemma from_wire_to_wire:
  assumes matches: "op_matches m"
    and key: "length (m_key (msg_base m)) < 2 ^ 16"
    and len: "length (to_wire m @ rest) < 2 ^ 32"
  shows "from_wire oob (to_wire m @ rest) = Returns (Some (received oob m, rest))"
proof -
  let ?E = "generate_extra m" and ?K = "m_key (msg_base m)" and ?V = "generate_value m"
  let ?raw = "to_wire m @ rest"
  have lens: "length ?E + length ?K + length ?V < 2 ^ 32" "length ?E < 2 ^ 8"
    using len length_extra [of m] by (auto simp: length_to_wire)
  have raw: "?raw = hdr_bytes (if is_request m then 0x80 else 0x81) (op_code m) (of_nat (length ?K))
      (of_nat (length ?E)) (generate_vbucket_or_status m)
      (of_nat (length ?E + length ?K + length ?V)) (m_opaque (msg_base m)) (m_cas (msg_base m))
      @ ?E @ ?K @ ?V @ rest"
    by (simp add: to_wire_eq)
  note parts = parse_parts [OF raw key lens(2,1)]
  have complete: "is_msg_complete ?raw =
      Some (is_request m, of_nat (length ?E + length ?K + length ?V), op_code m)"
    unfolding raw using len lens(1)
    by (subst is_msg_complete_hdr) (auto simp: length_to_wire unat_of_nat_u32 simp del: of_nat_add)
  have rest: "substr ?raw (sizeof_MsgHdr + unat (of_nat (length ?E + length ?K + length ?V) :: u32))
      (length ?raw) = Returns rest"
    using lens by (simp add: substr_def sizeof_MsgHdr_def length_to_wire unat_of_nat_u32 del: of_nat_add)
  have "parse_base ?raw = Returns (msg_base m)"
    using parts(1) by (simp add: op_code_def)
  from parse_dispatch [OF matches this parts(2,3,4), of oob] show ?thesis
    by (simp add: from_wire_def complete rest del: of_nat_add length_append)
qed

section \<open>Framing\<close>

lemma is_msg_complete_SomeD:
  assumes "is_msg_complete msg = Some (request, bl, opc)"
  shows "request \<longleftrightarrow> hd msg = 0x80" "bl = hdr_body_length msg" "opc = hdr_op_code msg"
    "24 + unat bl \<le> length msg"
proof -
  have "unat (of_nat (length msg) :: u32) \<le> length msg"
    by (simp add: unat_of_nat)
  with assms show "24 + unat bl \<le> length msg"
    by (auto simp: is_msg_complete_def Let_def sizeof_MsgHdr_def not_less split: if_splits)
qed (use assms in \<open>auto simp: is_msg_complete_def Let_def split: if_splits\<close>)

lemma parse_base_op: "parse_base msg = Returns b \<Longrightarrow> m_op_code b = hdr_op_code msg"
  by (auto simp: parse_base_def bind_outcome_Returns_iff)

lemma parse_request_class:
  "parse_request oob (hdr_op_code msg) msg = Returns m \<Longrightarrow>
     op_matches m \<and> is_request m \<and> op_code m = hdr_op_code msg"
  by (auto simp: parse_defs is_request_def op_code_def bind_outcome_Returns_iff parse_base_op
      split: if_splits)

lemma parse_response_class:
  "parse_response oob (hdr_op_code msg) msg = Returns m \<Longrightarrow>
     op_matches m \<and> is_response m \<and> op_code m = hdr_op_code msg"
  by (auto simp: parse_defs op_code_def bind_outcome_Returns_iff parse_base_op split: if_splits)

lemma from_wire_SomeD:
  assumes "from_wire oob msg = Returns (Some (m, rest))"
  shows "op_matches m" and "is_request m \<longleftrightarrow> hd msg = 0x80" and "op_code m = hdr_op_code msg"
    and "24 + unat (hdr_body_length msg) \<le> length msg"
    and "rest = drop (24 + unat (hdr_body_length msg)) msg"
proof -
  obtain request bl opc where c: "is_msg_complete msg = Some (request, bl, opc)"
    using assms by (auto simp: from_wire_def split: option.splits)
  note d = is_msg_complete_SomeD [OF c]
  from assms c d have
    p: "(if request then parse_request oob (hdr_op_code msg) msg
         else parse_response oob (hdr_op_code msg) msg) = Returns m"
    and r: "rest = drop (24 + unat (hdr_body_length msg)) msg"
    by (auto simp: from_wire_def bind_outcome_Returns_iff substr_def sizeof_MsgHdr_def
        split: if_splits)
  show "op_matches m" "is_request m \<longleftrightarrow> hd msg = 0x80" "op_code m = hdr_op_code msg"
    using p d(1)
    by (auto simp: is_request_def split: if_splits dest!: parse_request_class parse_response_class)
  show "24 + unat (hdr_body_length msg) \<le> length msg" "rest = drop (24 + unat (hdr_body_length msg)) msg"
    using d r by auto
qed

lemma from_wire_consumes:
  "from_wire oob msg = Returns (Some (m, rest)) \<Longrightarrow> length rest + 24 \<le> length msg"
  using from_wire_SomeD(4,5) by fastforce

lemma from_wire_not_Blocks [simp]:
  "from_wire oob msg \<noteq> Blocks" "from_wire oob msg \<noteq> NullDeref" "from_wire oob msg \<noteq> Exits rc"
  by (auto simp: from_wire_def parse_defs parse_base_def parse_value_def parse_extra_def substr_def
      split: option.splits)

lemma from_wire_short [simp]: "length msg < 24 \<Longrightarrow> from_wire oob msg = Returns None"
  by (simp add: from_wire_def is_msg_complete_def sizeof_MsgHdr_def unat_of_nat_u32)

lemma from_wire_hdr_incomplete:
  assumes "length body < unat bl" "24 + length body < 2 ^ 32"
  shows "from_wire oob (hdr_bytes magic opc kl el vb bl opq cas @ body) = Returns None"
  using assms by (simp add: from_wire_def is_msg_complete_hdr)

lemma from_wire_hdr_prefix:
  assumes "msg = hdr_bytes magic opc kl el vb (of_nat (length body)) opq cas @ body"
    "length msg < 2 ^ 32" "k < length msg"
  shows "from_wire oob (take k msg) = Returns None"
proof (cases "k < 24")
  case False
  have "length (take (k - 24) body) < unat (of_nat (length body) :: u32)"
    using assms False by (simp add: unat_of_nat_u32)
  then show ?thesis
    using assms False from_wire_hdr_incomplete by simp
qed (use assms in simp)

lemma from_wire_prefix:
  assumes "length (to_wire m) < 2 ^ 32" "k < length (to_wire m)"
  shows "from_wire oob (take k (to_wire m)) = Returns None"
proof -
  let ?body = "generate_extra m @ m_key (msg_base m) @ generate_value m"
  have "to_wire m = hdr_bytes (if is_request m then 0x80 else 0x81) (op_code m)
      (of_nat (length (m_key (msg_base m)))) (of_nat (length (generate_extra m)))
      (generate_vbucket_or_status m) (of_nat (length ?body)) (m_opaque (msg_base m)) (m_cas (msg_base m))
      @ ?body"
    by (simp add: to_wire_eq add.assoc)
  then show ?thesis
    using assms by (rule from_wire_hdr_prefix)
qed

text \<open>
  The contract of a framed codec: a message followed by anything decodes to the message and
  the remainder, and no proper prefix of a message decodes. \<open>self_parsing\<close> are the messages
  whose class survives the parser's choice.
\<close>

locale framed_codec =
  fixes enc :: "'a \<Rightarrow> bytes"
    and dec :: "bytes \<Rightarrow> ('a \<times> bytes) option outcome"
    and ok :: "'a \<Rightarrow> bool"
    and limit :: nat
  assumes dec_enc: "ok x \<Longrightarrow> length (enc x @ rest) < limit \<Longrightarrow> dec (enc x @ rest) = Returns (Some (x, rest))"
    and dec_prefix: "ok x \<Longrightarrow> length (enc x) < limit \<Longrightarrow> k < length (enc x) \<Longrightarrow>
      dec (take k (enc x)) = Returns None"
    and enc_nonempty: "enc x \<noteq> []"
begin

lemma enc_unambiguous:
  assumes "ok x" "ok y" "enc x @ r = enc y @ s" "length (enc x @ r) < limit"
  shows "x = y \<and> r = s"
proof -
  have "dec (enc x @ r) = Returns (Some (x, r))"
    using assms(1,4) by (rule dec_enc)
  moreover have "dec (enc x @ r) = Returns (Some (y, s))"
    unfolding assms(3) by (rule dec_enc [OF assms(2)]) (use assms(3,4) in argo)
  ultimately show ?thesis by simp
qed

lemma dec_split:
  assumes "ok x" "length (enc x) < limit" "buf @ cs = enc x" "cs \<noteq> []"
  shows "dec buf = Returns None"
proof -
  have "buf = take (length buf) (enc x)" "length buf < length (enc x)"
    using assms(3,4) by (auto simp: assms(3) [symmetric])
  then show ?thesis
    using dec_prefix [OF assms(1,2), of "length buf"] by simp
qed

end

definition self_parsing :: "(nat \<Rightarrow> u32) \<Rightarrow> message \<Rightarrow> bool" where
  "self_parsing oob m \<longleftrightarrow>
     op_matches m \<and> received oob m = m \<and> length (m_key (msg_base m)) < 2 ^ 16"

interpretation wire: framed_codec to_wire "from_wire oob" "self_parsing oob" "2 ^ 32" for oob
proof unfold_locales
  fix x k rest
  show "from_wire oob (to_wire x @ rest) = Returns (Some (x, rest))"
    if "self_parsing oob x" "length (to_wire x @ rest) < 2 ^ 32"
    using from_wire_to_wire [of x rest oob] that by (simp add: self_parsing_def)
  show "from_wire oob (take k (to_wire x)) = Returns None"
    if "self_parsing oob x" "length (to_wire x) < 2 ^ 32" "k < length (to_wire x)"
    using from_wire_prefix that by (simp add: self_parsing_def)
  show "to_wire x \<noteq> []"
    using length_to_wire [of x] by auto
qed

section \<open>Properties\<close>

text \<open>
  C11: Parsing a serialised message, whatever bytes follow it, takes just that message off the
  buffer. What every message keeps is its header: request or response, op code, key, opaque
  value, CAS value, and vbucket or status. The whole message comes back exactly for the classes
  of \<open>kept\<close>: all requests but TAP_CONNECT, TAP_MUTATE and SET_VBUCKET, a GET response without
  error, an ADD or REPLACE response and a response of no class of its own. The others come
  back as \<open>received\<close> says: TAP_CONNECT and SET_VBUCKET requests and GETK, SET, DELETE and VERSION
  responses as the base class, a TAP_MUTATE request without its value and with flags and expiry
  from outside of its extras, a failed GET response with such flags.
\<close>

theorem wire_roundtrip:
  assumes "op_matches m" "length (m_key (msg_base m)) < 2 ^ 16" "length (to_wire m @ rest) < 2 ^ 32"
  shows "\<exists>m'. from_wire oob (to_wire m @ rest) = Returns (Some (m', rest)) \<and> m' = received oob m \<and>
      msg_base m' = msg_base m \<and> is_request m' = is_request m \<and>
      generate_vbucket_or_status m' = generate_vbucket_or_status m \<and> (kept m \<longrightarrow> m' = m) \<and>
    (\<not> kept m \<longrightarrow> (\<exists>oob'. from_wire oob' (to_wire m @ rest) \<noteq> Returns (Some (m, rest))))"
  using from_wire_to_wire [OF assms] kept_iff_received [of m] received_header [of oob m] by auto

theorem wire_roundtrip_witness:
  "from_wire (\<lambda>_. 0) (to_wire (new_ReplaceReq [1, 2] 5 [3, 4, 5] 6 7 8) @ [9]) =
     Returns (Some (new_ReplaceReq [1, 2] 5 [3, 4, 5] 6 7 8, [9]))"
proof -
  let ?m = "new_ReplaceReq [1, 2] 5 [3, 4, 5] 6 7 8"
  have "op_matches ?m" "length (m_key (msg_base ?m)) < 2 ^ 16" "length (to_wire ?m @ [9]) < 2 ^ 32"
    by (simp_all add: new_ReplaceReq_def base_def length_to_wire sar_extra_def)
  from wire_roundtrip [OF this, of "\<lambda>_. 0"] obtain m' where
    "from_wire (\<lambda>_. 0) (to_wire ?m @ [9]) = Returns (Some (m', [9]))" "kept ?m \<longrightarrow> m' = ?m"
    by blast
  moreover have "kept ?m" by (simp add: new_ReplaceReq_def)
  ultimately show ?thesis by simp
qed

text \<open>
  C36: The bytes written and the values read do not depend on the byte order of the host: on
  either kind of host \<open>write\<close> appends the big-endian bytes, and \<open>network_to_host\<close> of the
  bytes loaded from the buffer recovers the value, for all four widths.
\<close>

theorem byte_order_independent:
  "write_u8 e a ss = ss @ be_bytes a \<and> network_to_host8 e (mem_load e (be_bytes a)) = a \<and>
   write_u16 e b ss = ss @ be_bytes b \<and> network_to_host16 e (mem_load e (be_bytes b)) = b \<and>
   write_u32 e c ss = ss @ be_bytes c \<and> network_to_host32 e (mem_load e (be_bytes c)) = c \<and>
   write_u64 e d ss = ss @ be_bytes d \<and> network_to_host64 e (mem_load e (be_bytes d)) = d"
  using network_to_host_mem_load [of "be_bytes a" e] network_to_host_mem_load [of "be_bytes b" e]
    network_to_host_mem_load [of "be_bytes c" e] network_to_host_mem_load [of "be_bytes d" e]
  by (simp add: of_le_bytes_le_bytes)

text \<open>
  C27: Whatever bytes are in the buffer, a parsed message has the class that goes with its op
  code and magic byte, and exactly the header and the announced body are removed.
\<close>

theorem from_wire_typed_and_framed:
  assumes "from_wire oob msg = Returns (Some (m, rest))"
  shows "op_matches m \<and> (is_request m \<longleftrightarrow> hd msg = 0x80) \<and> op_code m = hdr_op_code msg \<and>
    msg = take (24 + unat (hdr_body_length msg)) msg @ rest \<and> length rest + 24 \<le> length msg"
  using from_wire_SomeD [OF assms] by auto

theorem from_wire_typed_and_framed_witness:
  "from_wire (\<lambda>_. 0) (to_wire (new_GetReq [1] 2) @ [3]) = Returns (Some (new_GetReq [1] 2, [3])) \<and>
   op_matches (new_GetReq [1] 2)"
proof -
  have "from_wire (\<lambda>_. 0) (to_wire (new_GetReq [1] 2) @ [3]) = Returns (Some (new_GetReq [1] 2, [3]))"
    using from_wire_to_wire [of "new_GetReq [1] 2" "[3]" "\<lambda>_. 0"]
    by (simp add: new_GetReq_def base_def length_to_wire)
  with from_wire_typed_and_framed [OF this] show ?thesis by simp
qed

text \<open>
  A header whose extras would end past the bytes received makes the parser throw
  \<open>std::out_of_range\<close>, although \<open>is_msg_complete\<close> accepts the message: the completeness
  check looks at the body length only.
\<close>

lemma extra_length_overrun_throws:
  assumes "is_msg_complete msg \<noteq> None" "length msg < 24 + unat (hdr_extra_length msg)"
  shows "from_wire oob msg = Throws"
  using assms
  by (auto simp: from_wire_def parse_defs parse_base_def substr_def sizeof_MsgHdr_def)

text \<open>
  A message that announces a body within 24 bytes of \<open>2 ^ 32\<close> is never complete, however
  much is received: the length of the buffer is compared after it has been cut to 32 bits.
\<close>

lemma oversized_body_never_completes:
  assumes "unat (hdr_body_length msg) \<ge> 2 ^ 32 - 24"
  shows "from_wire oob msg = Returns None"
proof -
  have "unat (of_nat (length msg) :: u32) < 2 ^ 32"
    using unsigned_less [of "of_nat (length msg) :: u32"] by simp
  with assms show ?thesis
    by (simp add: from_wire_def is_msg_complete_def Let_def sizeof_MsgHdr_def)
qed

end
