(* ===== verification/Connection.thy ===== *)
theory Connection
  imports Wire
begin

text \<open>
  The connections of \<open>memcached_tap_client.cpp\<close>: \<open>Connection::send\<close>, \<open>recv\<close> and
  \<open>disconnect\<close>, \<open>ClientConnection::connect\<close> and the constructor of \<open>ServerConnection\<close>.

  The socket layer is the environment. \<open>c_pending\<close> lists what the coming \<open>::recv\<close> calls on
  the socket return, in order; sending a request asks the peer, a parameter of the model, how
  it answers. A client connection has a receive timeout, so that \<open>::recv\<close> fails when nothing
  more arrives; a server connection has none and blocks.
\<close>

section \<open>State and environment\<close>

text \<open>One return of \<open>::recv\<close>: the bytes read (none means the peer closed), or -1 with errno.\<close>

datatype recv_event = Recv bytes | RecvError int

record connection =
  c_address :: server
  c_sock :: int
  c_buffer :: bytes
  c_rcvtimeo :: bool
  c_pending :: "recv_event list"

text \<open>
  A peer: from its state and the bytes of a request, its next state, whether \<open>::send\<close>
  succeeded, and what reading the socket then returns.
\<close>

type_synonym 'p peer = "'p \<Rightarrow> bytes \<Rightarrow> 'p \<times> bool \<times> recv_event list"

section \<open>Operations\<close>

definition new_ClientConnection :: "server \<Rightarrow> connection" where
  "new_ClientConnection address =
     \<lparr>c_address = address, c_sock = -1, c_buffer = [], c_rcvtimeo = False, c_pending = []\<rparr>"

definition new_ServerConnection :: "int \<Rightarrow> server \<Rightarrow> recv_event list \<Rightarrow> connection" where
  "new_ServerConnection sock address pending =
     \<lparr>c_address = address, c_sock = sock, c_buffer = [], c_rcvtimeo = False, c_pending = pending\<rparr>"

definition disconnect :: "connection \<Rightarrow> connection" where
  "disconnect c = (if c_sock c > 0 then c\<lparr>c_sock := -1\<rparr> else c)"

definition send :: "'p peer \<Rightarrow> 'p \<Rightarrow> connection \<Rightarrow> message \<Rightarrow> bool \<times> 'p \<times> connection" where
  "send peer p c req =
     (if c_sock c < 0 then (False, p, c)
      else
        let bin = to_wire req;
            (p', sent, evs) = peer p bin
        in if \<not> sent then (False, p', c\<lparr>c_sock := -1\<rparr>)
           else (True, p', c\<lparr>c_pending := c_pending c @ evs\<rparr>))"

text \<open>
  The loop of \<open>recv\<close>, over the parser and the results of the \<open>::recv\<close> calls. The result
  is the status, the message, the buffer and the results left; \<open>St_DISCONNECTED\<close> and
  \<open>St_ERROR\<close> close the socket.
\<close>

fun recv_loop :: "(bytes \<Rightarrow> ('a \<times> bytes) option outcome) \<Rightarrow> bool \<Rightarrow> bytes \<Rightarrow> recv_event list \<Rightarrow>
    (Status \<times> 'a option \<times> bytes \<times> recv_event list) outcome" where
  "recv_loop parse timeo buf [] =
     bind_outcome (parse buf) (\<lambda>r.
       case r of
         Some (m, rest) \<Rightarrow> Returns (St_OK, Some m, rest, [])
       | None \<Rightarrow> if timeo then Returns (St_ERROR, None, buf, []) else Blocks)"
| "recv_loop parse timeo buf (ev # evs) =
     bind_outcome (parse buf) (\<lambda>r.
       case r of
         Some (m, rest) \<Rightarrow> Returns (St_OK, Some m, rest, ev # evs)
       | None \<Rightarrow>
           (case ev of
              Recv bs \<Rightarrow>
                if bs \<noteq> [] then recv_loop parse timeo (buf @ bs) evs
                else Returns (St_DISCONNECTED, None, buf, evs)
            | RecvError err \<Rightarrow> Returns (St_ERROR, None, buf, evs)))"

definition recv :: "(nat \<Rightarrow> u32) \<Rightarrow> connection \<Rightarrow> (Status \<times> message option \<times> connection) outcome" where
  "recv oob c =
     (if c_sock c = -1 then Returns (St_DISCONNECTED, None, c)
      else
        bind_outcome (recv_loop (from_wire oob) (c_rcvtimeo c) (c_buffer c) (c_pending c))
          (\<lambda>(status, msg, buf, evs).
            Returns (status, msg,
              c\<lparr>c_buffer := buf, c_pending := evs,
                c_sock := (if status = St_OK then c_sock c else -1)\<rparr>)))"

text \<open>
  \<open>connect\<close>: \<open>split_host_port\<close> is the address parser of cpp-common, and the system calls
  return their result with the errno they leave.
\<close>

record net_env =
  ne_getaddrinfo :: "string \<Rightarrow> string \<Rightarrow> int"
  ne_socket :: "int \<times> int"
  ne_connect :: "int \<times> int"
  ne_setsockopt :: "int \<times> int"

definition connect ::
  "(server \<Rightarrow> (string \<times> int) option) \<Rightarrow> net_env \<Rightarrow> connection \<Rightarrow> int \<times> connection" where
  "connect split_host_port env c =
     (case split_host_port (c_address c) of
        None \<Rightarrow> (-1, c)
      | Some (host, port) \<Rightarrow>
          let rc = ne_getaddrinfo env host (to_string_int port)
          in if rc < 0 then (rc, c)
             else
               let (sock, err) = ne_socket env; c = c\<lparr>c_sock := sock\<rparr>
               in if sock < 0 then (err, c)
                  else
                    let (rc, err) = ne_connect env
                    in if rc < 0 then (err, c\<lparr>c_sock := -1\<rparr>)
                       else
                         let (rc, err) = ne_setsockopt env
                         in if rc < 0 then (err, c\<lparr>c_sock := -1\<rparr>)
                            else (0, c\<lparr>c_rcvtimeo := True\<rparr>))"

section \<open>Receiving\<close>

definition event_size :: "recv_event list \<Rightarrow> nat" where
  "event_size evs = sum_list (map (\<lambda>ev. case ev of Recv bs \<Rightarrow> Suc (length bs) | RecvError _ \<Rightarrow> 1) evs)"

lemma event_size_simps [simp]:
  "event_size [] = 0"
  "event_size (Recv bs # evs) = Suc (length bs + event_size evs)"
  "event_size (RecvError e # evs) = Suc (event_size evs)"
  by (simp_all add: event_size_def)

text \<open>How much there is left to read: what a successful \<open>recv\<close> decreases.\<close>

definition unread :: "connection \<Rightarrow> nat" where
  "unread c = length (c_buffer c) + event_size (c_pending c)"

lemma recv_loop_size:
  "recv_loop (from_wire oob) timeo buf evs = Returns (St_OK, m, buf', evs') \<Longrightarrow>
     length buf' + event_size evs' + 24 \<le> length buf + event_size evs"
proof (induction "from_wire oob" timeo buf evs rule: recv_loop.induct)
  case (1 timeo buf)
  then show ?case
    using from_wire_consumes
    by (fastforce simp: bind_outcome_Returns_iff split: option.splits if_splits)
next
  case (2 timeo buf ev evs)
  show ?case
  proof (cases "\<exists>m rest. from_wire oob buf = Returns (Some (m, rest))")
    case True
    then show ?thesis
      using 2 from_wire_consumes
      by (fastforce simp: bind_outcome_Returns_iff)
  next
    case False
    then show ?thesis
      using 2
      by (fastforce simp: bind_outcome_Returns_iff split: option.splits recv_event.splits if_splits)
  qed
qed

lemma recv_OK_unread:
  "recv oob c = Returns (St_OK, m, c') \<Longrightarrow> unread c' < unread c"
  by (auto simp: recv_def unread_def bind_outcome_Returns_iff split: if_splits
      dest!: recv_loop_size)

lemma recv_loop_OK_Some:
  "recv_loop parse timeo buf evs = Returns (st, m, buf', evs') \<Longrightarrow> st = St_OK \<longleftrightarrow> m \<noteq> None"
  by (induction parse timeo buf evs rule: recv_loop.induct)
    (fastforce simp: bind_outcome_Returns_iff split: option.splits recv_event.splits if_splits)+

lemma recv_OK_Some: "recv oob c = Returns (st, m, c') \<Longrightarrow> st = St_OK \<longleftrightarrow> m \<noteq> None"
  by (auto simp: recv_def bind_outcome_Returns_iff split: if_splits dest: recv_loop_OK_Some)

text \<open>
  The reading loop against the contract of a framed codec: however the bytes of a message are
  cut into chunks, the loop returns exactly that message and leaves the bytes behind it.
\<close>

context framed_codec
begin

lemma recv_loop_chunks:
  assumes "ok x" and "length (enc x @ rest) < limit"
  shows "buf @ concat chunks = enc x @ rest \<Longrightarrow> [] \<notin> set chunks \<Longrightarrow>
    \<exists>buf' chunks'. recv_loop dec timeo buf (map Recv chunks @ evs) =
        Returns (St_OK, Some x, buf', map Recv chunks' @ evs) \<and>
      buf' @ concat chunks' = rest \<and> [] \<notin> set chunks'"
proof (induction chunks arbitrary: buf)
  case Nil
  then have "dec buf = Returns (Some (x, rest))"
    using dec_enc [OF assms] by simp
  then show ?case
    by (cases evs) (auto intro!: exI [of _ "[]"])
next
  case (Cons ch chunks)
  obtain us where
    "buf = enc x @ us \<and> us @ concat (ch # chunks) = rest \<or>
     buf @ us = enc x \<and> concat (ch # chunks) = us @ rest"
    using Cons.prems(1) append_eq_append_conv2 [of buf "concat (ch # chunks)" "enc x" rest] by blast
  then consider
      (whole) r where "buf = enc x @ r" "r @ concat (ch # chunks) = rest"
    | (part) cs where "buf @ cs = enc x" "cs \<noteq> []"
    by (cases "us = []") (metis append_Nil append_Nil2, metis)
  then show ?case
  proof cases
    case whole
    with assms(2) have "length (enc x @ r) < limit" by auto
    then have "dec buf = Returns (Some (x, r))"
      using dec_enc [OF assms(1)] whole(1) by simp
    with whole(2) Cons.prems(2) show ?thesis
      by (auto intro!: exI [of _ "ch # chunks"])
  next
    case part
    from assms have "dec buf = Returns None"
      by (intro dec_split [OF assms(1) _ part]) simp
    with Cons.IH [of "buf @ ch"] Cons.prems show ?thesis by auto
  qed
qed

text \<open>A peer that closes the connection in the middle of a message: the loop ends there.\<close>

lemma recv_loop_truncated:
  assumes "ok x" "length (enc x) < limit" "us \<noteq> []"
  shows "(buf @ concat chunks) @ us = enc x \<Longrightarrow> [] \<notin> set chunks \<Longrightarrow>
    recv_loop dec timeo buf (map Recv chunks @ [Recv []]) =
      Returns (St_DISCONNECTED, None, buf @ concat chunks, [])"
proof (induction chunks arbitrary: buf)
  case Nil
  then have "dec buf = Returns None"
    using assms by (intro dec_split [of x buf us]) auto
  then show ?case by simp
next
  case (Cons ch chunks)
  then have "dec buf = Returns None"
    using assms by (intro dec_split [of x buf "concat (ch # chunks) @ us"]) auto
  with Cons.IH [of "buf @ ch"] Cons.prems show ?case by auto
qed

end

text \<open>Calling \<open>recv\<close> a number of times in a row.\<close>

fun recv_n :: "(nat \<Rightarrow> u32) \<Rightarrow> nat \<Rightarrow> connection \<Rightarrow> (message list \<times> connection) outcome" where
  "recv_n oob 0 c = Returns ([], c)"
| "recv_n oob (Suc n) c =
     bind_outcome (recv oob c) (\<lambda>(st, msg, c').
       case msg of
         None \<Rightarrow> Returns ([], c')
       | Some m \<Rightarrow> bind_outcome (recv_n oob n c') (\<lambda>(ms, c''). Returns (m # ms, c'')))"

lemma recv_n_stream:
  assumes "c_sock c \<noteq> -1" "c_buffer c @ concat chunks = concat (map to_wire ms)"
    "c_pending c = map Recv chunks @ evs" "[] \<notin> set chunks"
    "list_all (self_parsing oob) ms" "length (concat (map to_wire ms)) < 2 ^ 32"
  shows "\<exists>c'. recv_n oob (length ms) c = Returns (ms, c') \<and>
      c_buffer c' = [] \<and> c_pending c' = evs \<and> c_sock c' = c_sock c"
  using assms
proof (induction ms arbitrary: c chunks)
  case Nil
  then show ?case by (cases chunks) auto
next
  case (Cons m ms)
  let ?rest = "concat (map to_wire ms)"
  from Cons.prems obtain buf' chunks' where
    "recv_loop (from_wire oob) (c_rcvtimeo c) (c_buffer c) (map Recv chunks @ evs) =
       Returns (St_OK, Some m, buf', map Recv chunks' @ evs)"
    and rest: "buf' @ concat chunks' = ?rest" "[] \<notin> set chunks'"
    using wire.recv_loop_chunks [of oob m ?rest "c_buffer c" chunks "c_rcvtimeo c" evs]
    by auto
  then have "recv oob c = Returns (St_OK, Some m, c\<lparr>c_buffer := buf', c_pending := map Recv chunks' @ evs\<rparr>)"
    using Cons.prems(1,3) by (simp add: recv_def)
  with Cons.IH [of "c\<lparr>c_buffer := buf', c_pending := map Recv chunks' @ evs\<rparr>" chunks'] rest Cons.prems
  show ?case by auto
qed

section \<open>Sockets\<close>

text \<open>A connection is either closed (-1) or holds a descriptor.\<close>

definition sock_ok :: "connection \<Rightarrow> bool" where
  "sock_ok c \<longleftrightarrow> c_sock c = -1 \<or> 0 \<le> c_sock c"

lemma sock_ok_new [simp]: "sock_ok (new_ClientConnection a)"
  by (simp add: sock_ok_def new_ClientConnection_def)

lemma sock_ok_send: "sock_ok c \<Longrightarrow> send peer p c req = (b, p', c') \<Longrightarrow> sock_ok c'"
  by (auto simp: send_def sock_ok_def Let_def split: if_splits prod.splits)

lemma sock_ok_recv: "sock_ok c \<Longrightarrow> recv oob c = Returns (st, m, c') \<Longrightarrow> sock_ok c'"
  by (auto simp: recv_def sock_ok_def bind_outcome_Returns_iff split: if_splits)

lemma send_closed: "c_sock c = -1 \<Longrightarrow> send peer p c req = (False, p, c)"
  by (simp add: send_def)

lemma recv_closed: "c_sock c = -1 \<Longrightarrow> recv oob c = Returns (St_DISCONNECTED, None, c)"
  by (simp add: recv_def)

lemma recv_loop_timeo_safe:
  "safe_outcome (\<lambda>(st, m, _). st = St_OK \<longleftrightarrow> m \<noteq> None) (recv_loop (from_wire oob) True buf evs)"
proof (induction "from_wire oob" True buf evs rule: recv_loop.induct)
  case (1 buf)
  then show ?case by (cases "from_wire oob buf") (auto split: option.splits)
next
  case (2 buf ev evs)
  then show ?case by (cases "from_wire oob buf") (auto split: option.splits recv_event.splits)
qed

text \<open>With a receive timeout, \<open>recv\<close> always comes back.\<close>

lemma recv_safe:
  assumes "c_rcvtimeo c"
  shows "safe_outcome (\<lambda>(st, m, c'). (st = St_OK \<longleftrightarrow> m \<noteq> None) \<and> c_rcvtimeo c') (recv oob c)"
  unfolding recv_def
  by (auto simp: assms intro!: safe_outcome_bind [OF recv_loop_timeo_safe])

lemma send_rcvtimeo: "send peer p c req = (b, p', c') \<Longrightarrow> c_rcvtimeo c' = c_rcvtimeo c"
  by (auto simp: send_def Let_def split: if_splits prod.splits)

lemma connect_result:
  assumes "connect shp env c = (rc, c')" "c_sock c = -1"
  shows "rc = 0 \<and> snd (ne_socket env) \<noteq> 0 \<and> snd (ne_connect env) \<noteq> 0 \<and> snd (ne_setsockopt env) \<noteq> 0 \<Longrightarrow>
      0 \<le> c_sock c' \<and> c_rcvtimeo c'"
    and "c_buffer c' = c_buffer c" "c_pending c' = c_pending c"
  using assms
  by (auto simp: connect_def Let_def split: option.splits prod.splits if_splits)

section \<open>Properties\<close>

text \<open>
  C20: However the network cuts a sequence of messages into chunks, as many calls of \<open>recv\<close>
  return exactly those messages in order and leave the connection open with nothing buffered.
\<close>

theorem recv_independent_of_chunking:
  assumes "c_sock c \<noteq> -1" "c_buffer c = []" "c_pending c = map Recv chunks @ evs" "[] \<notin> set chunks"
    and "concat chunks = concat (map to_wire ms)" "length (concat chunks) < 2 ^ 32"
    and "list_all (self_parsing oob) ms"
  shows "\<exists>c'. recv_n oob (length ms) c = Returns (ms, c') \<and>
    c_buffer c' = [] \<and> c_pending c' = evs \<and> c_sock c' = c_sock c"
  using assms by (intro recv_n_stream) auto

theorem recv_independent_of_chunking_witness:
  "\<exists>c'. recv_n (\<lambda>_. 0) 1
      (new_ServerConnection 4 ''peer''
         [Recv (take 10 (to_wire (new_GetReq [1] 2))), Recv (drop 10 (to_wire (new_GetReq [1] 2)))]) =
      Returns ([new_GetReq [1] 2], c') \<and> c_buffer c' = [] \<and> c_pending c' = [] \<and> c_sock c' = 4"
proof -
  let ?w = "to_wire (new_GetReq [1] 2)"
  have len: "length ?w = 25"
    by (simp add: length_to_wire new_GetReq_def base_def)
  then have "take 10 ?w \<noteq> []" "drop 10 ?w \<noteq> []" by auto
  moreover have "self_parsing (\<lambda>_. 0) (new_GetReq [1] 2)"
    by (simp add: self_parsing_def new_GetReq_def base_def)
  ultimately show ?thesis
    using recv_independent_of_chunking [of "new_ServerConnection 4 ''peer'' [Recv (take 10 ?w), Recv (drop 10 ?w)]"
        "[take 10 ?w, drop 10 ?w]" "[]" "[new_GetReq [1] 2]" "\<lambda>_. 0"] len
    by (simp add: new_ServerConnection_def)
qed

text \<open>
  \<open>connect\<close> reports success exactly when it leaves an open socket with a receive timeout,
  provided the system calls set errno when they fail.
\<close>

lemma connect_success_iff:
  assumes "c_sock c = -1" "\<not> c_rcvtimeo c"
    and "snd (ne_socket env) \<noteq> 0" "snd (ne_connect env) \<noteq> 0" "snd (ne_setsockopt env) \<noteq> 0"
  shows "fst (connect shp env c) = 0 \<longleftrightarrow>
    0 \<le> c_sock (snd (connect shp env c)) \<and> c_rcvtimeo (snd (connect shp env c))"
  using assms
  by (auto simp: connect_def Let_def split: option.splits prod.splits)

end
