(* ===== verification/Statistics.thy ===== *)
theory Statistics
  imports Prelude
begin

text \<open>
  The statistics of \<open>astaire_statistics.hpp\<close> and \<open>astaire_statistics.cpp\<close>: the three
  macros that declare a statistic, \<open>AstaireGlobalStatistics\<close>, and
  \<open>AstairePerConnectionStatistics\<close> with its connection and bucket records.

  \<open>uint_fast32_t\<close> is a 64-bit type on the hosts the program is built for. The clock and the
  compare-and-swap are the environment: a \<open>tick\<close> is what \<open>get_timestamp_us\<close> returns and
  whether \<open>compare_exchange_weak\<close> succeeds. What \<open>report_change\<close> publishes is appended
  to a list of reports. A \<open>ConnectionRecord*\<close> is the position of the record in
  \<open>_connections\<close>.
\<close>

section \<open>The statistic macros\<close>

type_synonym tick = "u64 \<times> bool"

text \<open>
  The methods a macro declares, over the update function of the field and the \<open>refresh\<close> of
  the class: gauges force the refresh, counters and collated statistics do not.
\<close>

definition gauge_increment :: "((u64 \<Rightarrow> u64) \<Rightarrow> 's \<Rightarrow> 's) \<Rightarrow> (bool \<Rightarrow> 's \<Rightarrow> 's) \<Rightarrow> u32 \<Rightarrow> 's \<Rightarrow> 's" where
  "gauge_increment upd refresh delta s = refresh True (upd (\<lambda>x. x + ucast delta) s)"

definition gauge_decrement :: "((u64 \<Rightarrow> u64) \<Rightarrow> 's \<Rightarrow> 's) \<Rightarrow> (bool \<Rightarrow> 's \<Rightarrow> 's) \<Rightarrow> u32 \<Rightarrow> 's \<Rightarrow> 's" where
  "gauge_decrement upd refresh delta s = refresh True (upd (\<lambda>x. x - ucast delta) s)"

definition gauge_zero :: "((u64 \<Rightarrow> u64) \<Rightarrow> 's \<Rightarrow> 's) \<Rightarrow> (bool \<Rightarrow> 's \<Rightarrow> 's) \<Rightarrow> 's \<Rightarrow> 's" where
  "gauge_zero upd refresh s = refresh True (upd (\<lambda>_. 0) s)"

definition gauge_set :: "((u64 \<Rightarrow> u64) \<Rightarrow> 's \<Rightarrow> 's) \<Rightarrow> (bool \<Rightarrow> 's \<Rightarrow> 's) \<Rightarrow> u32 \<Rightarrow> 's \<Rightarrow> 's" where
  "gauge_set upd refresh val s = refresh True (upd (\<lambda>_. ucast val) s)"

definition counter_increment :: "((u64 \<Rightarrow> u64) \<Rightarrow> 's \<Rightarrow> 's) \<Rightarrow> (bool \<Rightarrow> 's \<Rightarrow> 's) \<Rightarrow> u32 \<Rightarrow> 's \<Rightarrow> 's" where
  "counter_increment upd refresh delta s = refresh False (upd (\<lambda>x. x + ucast delta) s)"

definition counter_zero :: "((u64 \<Rightarrow> u64) \<Rightarrow> 's \<Rightarrow> 's) \<Rightarrow> (bool \<Rightarrow> 's \<Rightarrow> 's) \<Rightarrow> 's \<Rightarrow> 's" where
  "counter_zero upd refresh s = refresh False (upd (\<lambda>_. 0) s)"

definition counter_set :: "((u64 \<Rightarrow> u64) \<Rightarrow> 's \<Rightarrow> 's) \<Rightarrow> (bool \<Rightarrow> 's \<Rightarrow> 's) \<Rightarrow> u32 \<Rightarrow> 's \<Rightarrow> 's" where
  "counter_set upd refresh val s = refresh False (upd (\<lambda>_. ucast val) s)"

definition collated_increment :: "((u64 \<Rightarrow> u64) \<Rightarrow> 's \<Rightarrow> 's) \<Rightarrow> (bool \<Rightarrow> 's \<Rightarrow> 's) \<Rightarrow> u32 \<Rightarrow> 's \<Rightarrow> 's" where
  "collated_increment upd refresh delta s = refresh False (upd (\<lambda>x. x + ucast delta) s)"

lemmas stat_macro_defs [stat_simps] =
  gauge_increment_def gauge_decrement_def gauge_zero_def gauge_set_def
  counter_increment_def counter_zero_def counter_set_def collated_increment_def

section \<open>AstaireGlobalStatistics\<close>

record global_stats =
  gs_total_buckets :: u64
  gs_resynced_bucket_count :: u64
  gs_resynced_keys_count :: u64
  gs_resynced_bytes_count :: u64
  gs_bandwidth_raw :: u64
  gs_bandwidth :: u32
  gs_timestamp_us :: u64
  gs_period_us :: u64
  gs_reports :: "string list list"

definition gs_values :: "global_stats \<Rightarrow> string list" where
  "gs_values s =
     [to_string (unat (gs_total_buckets s)), to_string (unat (gs_resynced_bucket_count s)),
      to_string (unat (gs_resynced_keys_count s)), to_string (unat (gs_resynced_bytes_count s)),
      to_string (unat (gs_bandwidth s))]"

definition gs_refreshed :: "global_stats \<Rightarrow> global_stats" where
  "gs_refreshed s = s\<lparr>gs_reports := gs_reports s @ [gs_values s]\<rparr>"

definition gs_read :: "u64 \<Rightarrow> global_stats \<Rightarrow> global_stats" where
  "gs_read period_us s =
     (let period_s = period_us div (1000 * 1000);
          bandwidth_raw = gs_bandwidth_raw s;
          s = s\<lparr>gs_bandwidth_raw := 0\<rparr>
      in if period_s = 0 then s\<lparr>gs_bandwidth := 0\<rparr>
         else s\<lparr>gs_bandwidth := ucast (bandwidth_raw div period_s)\<rparr>)"

definition gs_refresh :: "tick \<Rightarrow> bool \<Rightarrow> global_stats \<Rightarrow> global_stats" where
  "gs_refresh t force s =
     (let timestamp_us = gs_timestamp_us s;
          timestamp_us_now = fst t
      in if timestamp_us_now \<ge> timestamp_us + gs_period_us s \<and> snd t
         then gs_refreshed (gs_read (timestamp_us_now - timestamp_us)
                (s\<lparr>gs_timestamp_us := timestamp_us_now\<rparr>))
         else if force then gs_refreshed s
         else s)"

definition gs_reset :: "u64 \<Rightarrow> tick \<Rightarrow> global_stats \<Rightarrow> global_stats" where
  "gs_reset now t s =
     gs_refresh t True
       (s\<lparr>gs_timestamp_us := now, gs_total_buckets := 0, gs_resynced_bucket_count := 0,
          gs_resynced_keys_count := 0, gs_resynced_bytes_count := 0, gs_bandwidth_raw := 0,
          gs_bandwidth := 0\<rparr>)"

text \<open>One turn of the reporting thread.\<close>

definition gs_thread_func_turn :: "tick \<Rightarrow> global_stats \<Rightarrow> global_stats" where
  "gs_thread_func_turn t s = gs_refresh t True s"

abbreviation gs_set_total_buckets :: "tick \<Rightarrow> u32 \<Rightarrow> global_stats \<Rightarrow> global_stats" where
  "gs_set_total_buckets t \<equiv> gauge_set gs_total_buckets_update (gs_refresh t)"

abbreviation gs_increment_resynced_bucket_count :: "tick \<Rightarrow> u32 \<Rightarrow> global_stats \<Rightarrow> global_stats" where
  "gs_increment_resynced_bucket_count t \<equiv> counter_increment gs_resynced_bucket_count_update (gs_refresh t)"

abbreviation gs_increment_resynced_keys_count :: "tick \<Rightarrow> u32 \<Rightarrow> global_stats \<Rightarrow> global_stats" where
  "gs_increment_resynced_keys_count t \<equiv> counter_increment gs_resynced_keys_count_update (gs_refresh t)"

abbreviation gs_increment_resynced_bytes_count :: "tick \<Rightarrow> u32 \<Rightarrow> global_stats \<Rightarrow> global_stats" where
  "gs_increment_resynced_bytes_count t \<equiv> counter_increment gs_resynced_bytes_count_update (gs_refresh t)"

abbreviation gs_increment_bandwidth :: "tick \<Rightarrow> u32 \<Rightarrow> global_stats \<Rightarrow> global_stats" where
  "gs_increment_bandwidth t \<equiv> collated_increment gs_bandwidth_raw_update (gs_refresh t)"

text \<open>
  The constructor resets members that hold whatever was in memory, \<open>junk\<close>; it has published
  nothing before. (It starts the reporting thread first, which sleeps before it reports; the thread
  is modelled in theory \<open>Reporter\<close>.)
\<close>

definition new_AstaireGlobalStatistics :: "global_stats \<Rightarrow> u64 \<Rightarrow> u64 \<Rightarrow> tick \<Rightarrow> global_stats" where
  "new_AstaireGlobalStatistics junk period_us now t = gs_reset now t (junk\<lparr>gs_period_us := period_us, gs_reports := []\<rparr>)"

section \<open>AstairePerConnectionStatistics\<close>

record bucket_record =
  br_bucket_id :: u16
  br_resynced_keys_count :: u64
  br_resynced_bytes_count :: u64
  br_bandwidth_raw :: u64
  br_bandwidth :: u32

record connection_record =
  cr_address :: string
  cr_port :: int
  cr_total_buckets :: u64
  cr_resynced_bucket_count :: u64
  cr_bucket_map :: "(u16, bucket_record) smap"

record per_conn_stats =
  pc_connections :: "connection_record list"
  pc_timestamp_us :: u64
  pc_period_us :: u64
  pc_reports :: "string list list"

definition br_reset :: "bucket_record \<Rightarrow> bucket_record" where
  "br_reset r = r\<lparr>br_resynced_keys_count := 0, br_resynced_bytes_count := 0,
                  br_bandwidth_raw := 0, br_bandwidth := 0\<rparr>"

definition br_read :: "u64 \<Rightarrow> bucket_record \<Rightarrow> bucket_record" where
  "br_read period_us r =
     (let period_s = period_us div (1000 * 1000);
          bandwidth_raw = br_bandwidth_raw r;
          r = r\<lparr>br_bandwidth_raw := 0\<rparr>
      in if period_s = 0 then r\<lparr>br_bandwidth := 0\<rparr>
         else r\<lparr>br_bandwidth := ucast (bandwidth_raw div period_s)\<rparr>)"

definition br_write_out :: "bucket_record \<Rightarrow> string list" where
  "br_write_out r =
     [to_string (unat (br_bucket_id r)), to_string (unat (br_resynced_keys_count r)),
      to_string (unat (br_resynced_bytes_count r)), to_string (unat (br_bandwidth r))]"

definition cr_read :: "u64 \<Rightarrow> connection_record \<Rightarrow> connection_record" where
  "cr_read period_us c = c\<lparr>cr_bucket_map := map (\<lambda>(b, r). (b, br_read period_us r)) (cr_bucket_map c)\<rparr>"

definition cr_reset :: "connection_record \<Rightarrow> connection_record" where
  "cr_reset c = c\<lparr>cr_bucket_map := map (\<lambda>(b, r). (b, br_reset r)) (cr_bucket_map c),
                  cr_total_buckets := 0, cr_resynced_bucket_count := 0\<rparr>"

definition cr_write_out :: "connection_record \<Rightarrow> string list" where
  "cr_write_out c =
     [cr_address c, to_string_int (cr_port c), to_string (unat (cr_total_buckets c)),
      to_string (unat (cr_resynced_bucket_count c)), to_string (length (cr_bucket_map c))] @
     concat (map (\<lambda>(b, r). br_write_out r) (cr_bucket_map c))"

definition pc_refreshed :: "per_conn_stats \<Rightarrow> per_conn_stats" where
  "pc_refreshed s = s\<lparr>pc_reports := pc_reports s @ [concat (map cr_write_out (pc_connections s))]\<rparr>"

definition pc_read :: "u64 \<Rightarrow> per_conn_stats \<Rightarrow> per_conn_stats" where
  "pc_read period_us s = s\<lparr>pc_connections := map (cr_read period_us) (pc_connections s)\<rparr>"

definition pc_refresh :: "tick \<Rightarrow> bool \<Rightarrow> per_conn_stats \<Rightarrow> per_conn_stats" where
  "pc_refresh t force s =
     (let timestamp_us = pc_timestamp_us s;
          timestamp_us_now = fst t
      in if timestamp_us_now \<ge> timestamp_us + pc_period_us s \<and> snd t
         then pc_refreshed (pc_read (timestamp_us_now - timestamp_us)
                (s\<lparr>pc_timestamp_us := timestamp_us_now\<rparr>))
         else if force then pc_refreshed s
         else s)"

definition pc_reset :: "u64 \<Rightarrow> tick \<Rightarrow> per_conn_stats \<Rightarrow> per_conn_stats" where
  "pc_reset now t s = pc_refresh t True (s\<lparr>pc_timestamp_us := now, pc_connections := []\<rparr>)"

definition new_AstairePerConnectionStatistics :: "u64 \<Rightarrow> u64 \<Rightarrow> u64 \<Rightarrow> tick \<Rightarrow> per_conn_stats" where
  "new_AstairePerConnectionStatistics junk period_us now t =
     pc_reset now t \<lparr>pc_connections = [], pc_timestamp_us = junk, pc_period_us = period_us, pc_reports = []\<rparr>"

definition destroy_AstairePerConnectionStatistics :: "u64 \<Rightarrow> tick \<Rightarrow> per_conn_stats \<Rightarrow> per_conn_stats" where
  "destroy_AstairePerConnectionStatistics now t s = pc_reset now t s"

text \<open>
  The constructor of \<open>ConnectionRecord\<close> fills the bucket map, zeroes it, and sets its gauge,
  which refreshes the parent before the record is one of its connections.
\<close>

definition new_BucketRecord :: "u16 \<Rightarrow> bucket_record" where
  "new_BucketRecord b =
     \<lparr>br_bucket_id = b, br_resynced_keys_count = 0, br_resynced_bytes_count = 0,
      br_bandwidth_raw = 0, br_bandwidth = 0\<rparr>"

definition new_ConnectionRecord :: "string \<Rightarrow> int \<Rightarrow> u16 list \<Rightarrow> connection_record" where
  "new_ConnectionRecord address port buckets =
     (cr_reset \<lparr>cr_address = address, cr_port = port, cr_total_buckets = 0, cr_resynced_bucket_count = 0,
        cr_bucket_map = fold (\<lambda>b. smap_upd b (new_BucketRecord b)) buckets []\<rparr>)
     \<lparr>cr_total_buckets := ucast (of_nat (length buckets) :: u32)\<rparr>"

definition add_connection ::
  "(server \<Rightarrow> (string \<times> int) option) \<Rightarrow> tick \<Rightarrow> server \<Rightarrow> u16 list \<Rightarrow> per_conn_stats \<Rightarrow> nat \<times> per_conn_stats" where
  "add_connection split_host_port t server buckets s =
     (let (address, port) =
            (case split_host_port server of None \<Rightarrow> (server, 0) | Some (a, p) \<Rightarrow> (a, p));
          conn_rec = new_ConnectionRecord address port buckets;
          s = pc_refresh t True s
      in (length (pc_connections s), s\<lparr>pc_connections := pc_connections s @ [conn_rec]\<rparr>))"

text \<open>
  A statistic of a bucket record, reached through \<open>get_bucket_stats\<close>: \<open>None\<close> is the
  dereference of the null pointer that \<open>_bucket_map[bucket]\<close> yields for an unknown bucket.
\<close>

definition get_bucket_stats :: "nat \<Rightarrow> u16 \<Rightarrow> per_conn_stats \<Rightarrow> bucket_record option" where
  "get_bucket_stats i b s = map_of (cr_bucket_map (pc_connections s ! i)) b"

definition with_bucket :: "nat \<Rightarrow> u16 \<Rightarrow> (bucket_record \<Rightarrow> bucket_record) \<Rightarrow> per_conn_stats \<Rightarrow> per_conn_stats option" where
  "with_bucket i b f s =
     map_option
       (\<lambda>r. s\<lparr>pc_connections := (pc_connections s)
                [i := (pc_connections s ! i)
                   \<lparr>cr_bucket_map := smap_upd b (f r) (cr_bucket_map (pc_connections s ! i))\<rparr>]\<rparr>)
       (get_bucket_stats i b s)"

definition br_increment_resynced_keys_count ::
  "tick \<Rightarrow> nat \<Rightarrow> u16 \<Rightarrow> u32 \<Rightarrow> per_conn_stats \<Rightarrow> per_conn_stats option" where
  "br_increment_resynced_keys_count t i b delta s =
     map_option (pc_refresh t False)
       (with_bucket i b (br_resynced_keys_count_update (\<lambda>x. x + ucast delta)) s)"

definition br_increment_resynced_bytes_count ::
  "tick \<Rightarrow> nat \<Rightarrow> u16 \<Rightarrow> u32 \<Rightarrow> per_conn_stats \<Rightarrow> per_conn_stats option" where
  "br_increment_resynced_bytes_count t i b delta s =
     map_option (pc_refresh t False)
       (with_bucket i b (br_resynced_bytes_count_update (\<lambda>x. x + ucast delta)) s)"

definition br_increment_bandwidth ::
  "tick \<Rightarrow> nat \<Rightarrow> u16 \<Rightarrow> u32 \<Rightarrow> per_conn_stats \<Rightarrow> per_conn_stats option" where
  "br_increment_bandwidth t i b delta s =
     map_option (pc_refresh t False)
       (with_bucket i b (br_bandwidth_raw_update (\<lambda>x. x + ucast delta)) s)"

definition cr_set_resynced_bucket_count :: "tick \<Rightarrow> nat \<Rightarrow> u32 \<Rightarrow> per_conn_stats \<Rightarrow> per_conn_stats" where
  "cr_set_resynced_bucket_count t i val s =
     pc_refresh t True
       (s\<lparr>pc_connections := (pc_connections s)
            [i := (pc_connections s ! i)\<lparr>cr_resynced_bucket_count := ucast val\<rparr>]\<rparr>)"

section \<open>The contract of a statistics recorder\<close>

text \<open>
  Both classes share their \<open>refresh\<close>: when the period is over it collates and reports, when
  forced it reports, and otherwise it does nothing. What this promises the macros is proved
  once here.
\<close>

locale stat_recorder =
  fixes refresh :: "tick \<Rightarrow> bool \<Rightarrow> 's \<Rightarrow> 's"
    and due :: "tick \<Rightarrow> 's \<Rightarrow> bool"
    and collate :: "tick \<Rightarrow> 's \<Rightarrow> 's"
    and refreshed :: "'s \<Rightarrow> 's"
    and vals :: "'s \<Rightarrow> string list"
    and reports :: "'s \<Rightarrow> string list list"
  assumes refresh_eq: "refresh t force s =
      (if due t s then refreshed (collate t s) else if force then refreshed s else s)"
    and reports_refreshed: "reports (refreshed s) = reports s @ [vals s]"
    and reports_collate: "reports (collate t s) = reports s"
begin

lemma forced_refresh_reports:
  "reports (refresh t True s) = reports s @ [vals (if due t s then collate t s else s)]"
  by (simp add: refresh_eq reports_refreshed reports_collate)

lemma refresh_keeps_reports: "\<exists>new. reports (refresh t force s) = reports s @ new \<and> length new \<le> 1"
  by (auto simp: refresh_eq reports_refreshed reports_collate)

lemma refresh_idle: "\<not> due t s \<Longrightarrow> refresh t False s = s"
  by (simp add: refresh_eq)

lemma gauge_set_reports:
  assumes "\<And>f s. reports (upd f s) = reports s"
  shows "reports (gauge_set upd (refresh t) v s) =
    reports s @ [vals (let s' = upd (\<lambda>_. ucast v) s in if due t s' then collate t s' else s')]"
  by (simp add: gauge_set_def forced_refresh_reports assms Let_def)

end

definition gs_due :: "tick \<Rightarrow> global_stats \<Rightarrow> bool" where
  "gs_due t s \<longleftrightarrow> fst t \<ge> gs_timestamp_us s + gs_period_us s \<and> snd t"

definition gs_collate :: "tick \<Rightarrow> global_stats \<Rightarrow> global_stats" where
  "gs_collate t s = gs_read (fst t - gs_timestamp_us s) (s\<lparr>gs_timestamp_us := fst t\<rparr>)"

definition pc_due :: "tick \<Rightarrow> per_conn_stats \<Rightarrow> bool" where
  "pc_due t s \<longleftrightarrow> fst t \<ge> pc_timestamp_us s + pc_period_us s \<and> snd t"

definition pc_collate :: "tick \<Rightarrow> per_conn_stats \<Rightarrow> per_conn_stats" where
  "pc_collate t s = pc_read (fst t - pc_timestamp_us s) (s\<lparr>pc_timestamp_us := fst t\<rparr>)"

definition pc_values :: "per_conn_stats \<Rightarrow> string list" where
  "pc_values s = concat (map cr_write_out (pc_connections s))"

interpretation gs: stat_recorder gs_refresh gs_due gs_collate gs_refreshed gs_values gs_reports
  by unfold_locales
    (simp_all add: gs_refresh_def gs_due_def gs_collate_def gs_refreshed_def gs_read_def Let_def)

interpretation pc: stat_recorder pc_refresh pc_due pc_collate pc_refreshed pc_values pc_reports
  by unfold_locales
    (simp_all add: pc_refresh_def pc_due_def pc_collate_def pc_refreshed_def pc_read_def
      pc_values_def Let_def)

lemma gs_collate_counts [simp]:
  "gs_total_buckets (gs_collate t s) = gs_total_buckets s"
  "gs_resynced_bucket_count (gs_collate t s) = gs_resynced_bucket_count s"
  "gs_resynced_keys_count (gs_collate t s) = gs_resynced_keys_count s"
  "gs_resynced_bytes_count (gs_collate t s) = gs_resynced_bytes_count s"
  by (simp_all add: gs_collate_def gs_read_def Let_def)

lemma gs_refresh_counts [simp, stat_simps]:
  "gs_total_buckets (gs_refresh t force s) = gs_total_buckets s"
  "gs_resynced_bucket_count (gs_refresh t force s) = gs_resynced_bucket_count s"
  "gs_resynced_keys_count (gs_refresh t force s) = gs_resynced_keys_count s"
  "gs_resynced_bytes_count (gs_refresh t force s) = gs_resynced_bytes_count s"
  by (simp_all add: gs.refresh_eq gs_refreshed_def)

section \<open>Bucket records are there when they are used\<close>

definition has_buckets :: "nat \<Rightarrow> u16 list \<Rightarrow> per_conn_stats \<Rightarrow> bool" where
  "has_buckets i bs s \<longleftrightarrow>
     i < length (pc_connections s) \<and> set bs \<subseteq> fst ` set (cr_bucket_map (pc_connections s ! i))"

lemma get_bucket_stats_None_iff:
  "get_bucket_stats i b s = None \<longleftrightarrow> b \<notin> fst ` set (cr_bucket_map (pc_connections s ! i))"
  by (simp add: get_bucket_stats_def map_of_eq_None_iff)

lemma keys_new_bucket_map:
  "fst ` set (fold (\<lambda>b. smap_upd b (new_BucketRecord b)) bs m) = set bs \<union> fst ` set m"
  by (induction bs arbitrary: m) auto

lemma keys_map_snd [simp]: "fst ` set (map (\<lambda>(k, v). (k, f v)) m) = fst ` set m"
  by force

lemma keys_new_ConnectionRecord:
  "fst ` set (cr_bucket_map (new_ConnectionRecord a p bs)) = set bs"
  by (simp add: new_ConnectionRecord_def cr_reset_def keys_new_bucket_map del: set_map)

lemma pc_collate_keys:
  "length (pc_connections (pc_collate t s)) = length (pc_connections s)"
  "i < length (pc_connections s) \<Longrightarrow>
     fst ` set (cr_bucket_map (pc_connections (pc_collate t s) ! i)) =
     fst ` set (cr_bucket_map (pc_connections s ! i))"
  by (simp_all add: pc_collate_def pc_read_def cr_read_def del: set_map)

lemma has_buckets_refresh [simp]: "has_buckets i bs (pc_refresh t force s) \<longleftrightarrow> has_buckets i bs s"
  by (auto simp: pc.refresh_eq pc_refreshed_def has_buckets_def pc_collate_keys)

lemma has_buckets_add:
  assumes "add_connection shp t server bs s = (i, s')"
  shows "has_buckets i bs s'" and "has_buckets j cs s \<Longrightarrow> has_buckets j cs s'"
proof -
  show "has_buckets i bs s'"
    using assms
    by (auto simp: add_connection_def Let_def has_buckets_def keys_new_ConnectionRecord
        split: option.splits)
  assume "has_buckets j cs s"
  then have "has_buckets j cs (pc_refresh t True s)" by simp
  then show "has_buckets j cs s'"
    using assms
    by (auto simp: add_connection_def Let_def has_buckets_def nth_append split: option.splits)
qed

lemma with_bucket_Some:
  assumes "has_buckets i bs s" "b \<in> set bs"
  shows "\<exists>s'. with_bucket i b f s = Some s' \<and> (\<forall>j cs. has_buckets j cs s \<longrightarrow> has_buckets j cs s')"
proof -
  from assms have "get_bucket_stats i b s \<noteq> None"
    by (auto simp: get_bucket_stats_None_iff has_buckets_def)
  then obtain s' where s': "with_bucket i b f s = Some s'"
    by (auto simp: with_bucket_def)
  moreover have "has_buckets j cs s'" if "has_buckets j cs s" for j cs
    using that s'
    by (cases "j = i") (auto simp: with_bucket_def has_buckets_def)
  ultimately show ?thesis by blast
qed

lemma br_increment_Some:
  assumes "has_buckets i bs s" "b \<in> set bs"
  shows "\<exists>s'. br_increment_resynced_keys_count t i b d s = Some s' \<and> has_buckets i bs s'"
    and "\<exists>s'. br_increment_resynced_bytes_count t i b d s = Some s' \<and> has_buckets i bs s'"
    and "\<exists>s'. br_increment_bandwidth t i b d s = Some s' \<and> has_buckets i bs s'"
  using with_bucket_Some [OF assms] assms(1)
  by (fastforce simp: br_increment_resynced_keys_count_def br_increment_resynced_bytes_count_def
      br_increment_bandwidth_def)+

lemma has_buckets_cr_set:
  "has_buckets i bs s \<Longrightarrow> has_buckets i bs (cr_set_resynced_bucket_count t j v s)"
  unfolding cr_set_resynced_bucket_count_def has_buckets_refresh
  by (cases "i = j") (auto simp: has_buckets_def)

section \<open>Layout of the published reports\<close>

lemma length_br_write_out [simp]: "length (br_write_out r) = 4"
  by (simp add: br_write_out_def)

lemma length_cr_write_out: "length (cr_write_out c) = 5 + 4 * length (cr_bucket_map c)"
proof -
  have "length (concat (map (\<lambda>(b, r). br_write_out r) m)) = 4 * length m" for m :: "(u16 \<times> bucket_record) list"
    by (induction m) auto
  then show ?thesis by (simp add: cr_write_out_def)
qed

section \<open>Properties\<close>

lemma fold_keys_count:
  "gs_resynced_keys_count (fold (\<lambda>(t, n). gs_increment_resynced_keys_count t n) incs s) =
     gs_resynced_keys_count s + of_nat (sum_list (map (unat \<circ> snd) incs))"
  by (induction incs arbitrary: s) (auto simp: counter_increment_def unsigned_ucast_eq)

text \<open>
  C35: Nothing is lost between the counters and the published statistics: whenever the reporting
  thread takes its turn, the number of keys it publishes, read back from its decimal digits, is
  the sum of all increments since the count began, modulo \<open>2 ^ 64\<close>; the new object publishes zeros
  at once, whatever was in its memory.
\<close>

theorem published_counts_exact:
  "decimal (last (gs_reports (gs_thread_func_turn t (fold (\<lambda>(t, n). gs_increment_resynced_keys_count t n) incs s))) ! 2) =
     (unat (gs_resynced_keys_count s) + sum_list (map (unat \<circ> snd) incs)) mod 2 ^ 64 \<and>
   map decimal (last (gs_reports (new_AstaireGlobalStatistics junk period_us now t))) = [0, 0, 0, 0, 0]"
proof -
  have "unat (gs_resynced_keys_count s + of_nat (sum_list (map (unat \<circ> snd) incs))) =
      (unat (gs_resynced_keys_count s) + sum_list (map (unat \<circ> snd) incs)) mod 2 ^ 64"
    by (simp add: unat_word_ariths unat_of_nat mod_simps)
  then show ?thesis
    by (simp add: gs_thread_func_turn_def gs.forced_refresh_reports gs_values_def decimal_to_string fold_keys_count
        new_AstaireGlobalStatistics_def gs_reset_def)
      (simp add: gs_collate_def gs_read_def Let_def)
qed

end
