(* ===== verification/Tap.thy ===== *)
theory Tap
  imports Connection Statistics
begin

text \<open>
  \<open>Astaire::tap_buckets_thread\<close> of \<open>astaire.cpp\<close>: the thread that taps one server and
  writes the records it streams into the local memcached, with \<open>vbucket_for_key\<close> and
  \<open>TapBucketsThreadData\<close>.

  The MD5 hash of libmemcached (\<open>hash\<close>), the local memcached and the tapped server are
  parameters. The clock that the statistics read is \<open>clk\<close>, indexed by the number of
  refreshes the thread has made. Other tap threads of the round work on other vbuckets.
\<close>

section \<open>Keys and vbuckets\<close>

definition ascii :: "string \<Rightarrow> bytes" where
  "ascii s = map of_char s"

definition ASTAIRE_KEY_PREFIX :: bytes where
  "ASTAIRE_KEY_PREFIX = ascii (''astaire'' @ [CHR 0x5C, CHR 0x5C])"

definition ASTAIRE_TAG_KEY :: bytes where
  "ASTAIRE_TAG_KEY = ASTAIRE_KEY_PREFIX @ ascii ''tag''"

definition ASTAIRE_TAG_VALUE :: bytes where
  "ASTAIRE_TAG_VALUE = ascii ''{}''"

text \<open>\<open>str.find(prefix) == 0\<close>.\<close>

definition starts_with :: "bytes \<Rightarrow> bytes \<Rightarrow> bool" where
  "starts_with prefix str \<longleftrightarrow> take (length prefix) str = prefix"

text \<open>The hash is stored in an \<open>int\<close>; masking it gives the same bits.\<close>

definition vbucket_for_key :: "(bytes \<Rightarrow> u32) \<Rightarrow> bytes \<Rightarrow> vbucket" where
  "vbucket_for_key hash key = ucast (hash key AND (128 - 1))"

text \<open>
  \<open>((int32_t)a) - ((int32_t)b)\<close>: None where the difference leaves the range of \<open>int32_t\<close>, which
  C++ gives no meaning.
\<close>

definition int32_minus :: "u32 \<Rightarrow> u32 \<Rightarrow> int option" where
  "int32_minus a b =
     (let d = sint a - sint b in if - (2 ^ 31) \<le> d \<and> d < 2 ^ 31 then Some d else None)"

text \<open>
  \<open>((int32_t)a) - ((int32_t)b) < 0\<close>. Where the difference has no meaning, the model takes the
  one that wraps around, which is what the two's complement subtraction of the processor yields;
  property C37 says when that assumption is needed and what hangs on it.
\<close>

definition ts_before :: "u32 \<Rightarrow> u32 \<Rightarrow> bool" where
  "ts_before a b \<longleftrightarrow> (case int32_minus a b of Some d \<Rightarrow> d < 0 | None \<Rightarrow> sint (a - b) < 0)"

section \<open>The thread\<close>

record tap_data =
  td_tap_server :: server
  td_local_server :: server
  td_buckets :: "vbucket list"
  td_conn_stats :: nat

text \<open>What the thread changes: its \<open>success\<close> flag, the local memcached and the statistics.\<close>

record 'm tap_state =
  ts_success :: bool
  ts_memcached :: 'm
  ts_local_conn :: connection
  ts_global :: global_stats
  ts_per_conn :: per_conn_stats
  ts_ticks :: nat

text \<open>A request on the local connection and the response that is read for it.\<close>

definition local_round_trip :: "(nat \<Rightarrow> u32) \<Rightarrow> 'm peer \<Rightarrow> message \<Rightarrow> 'm tap_state \<Rightarrow>
    (Status \<times> message option \<times> 'm tap_state) outcome" where
  "local_round_trip oob peer req s =
     (let (sent, m, c) = send peer (ts_memcached s) (ts_local_conn s) req
      in bind_outcome (recv oob c) (\<lambda>(status, rsp, c').
           Returns (status, rsp, s\<lparr>ts_memcached := m, ts_local_conn := c'\<rparr>)))"

text \<open>
  The accessors of \<open>GetRsp\<close> and \<open>TapMutateReq\<close>. They are applied to messages of the
  matching op code only, which the parser builds as objects of these classes.
\<close>

fun mutate_value :: "message \<Rightarrow> bytes" where
  "mutate_value (TapMutateReq _ _ val _ _) = val"
| "mutate_value _ = []"

fun mutate_flags :: "message \<Rightarrow> u32" where
  "mutate_flags (TapMutateReq _ _ _ flags _) = flags"
| "mutate_flags _ = 0"

fun mutate_expiry :: "message \<Rightarrow> u32" where
  "mutate_expiry (TapMutateReq _ _ _ _ expiry) = expiry"
| "mutate_expiry _ = 0"

fun rsp_flags :: "message \<Rightarrow> u32" where
  "rsp_flags (GetRsp _ _ _ flags) = flags"
| "rsp_flags _ = 0"

text \<open>The statistics of one record; the bucket record is reached through a pointer.\<close>

definition count_key :: "(nat \<Rightarrow> tick) \<Rightarrow> tap_data \<Rightarrow> vbucket \<Rightarrow> u32 \<Rightarrow> 'm tap_state \<Rightarrow> 'm tap_state outcome" where
  "count_key clk d vb nbytes s =
     (let n = ts_ticks s; i = td_conn_stats d;
          g = ts_global s;
          g = gs_increment_resynced_keys_count (clk n) 1 g;
          g = gs_increment_resynced_bytes_count (clk (n + 1)) nbytes g;
          g = gs_increment_bandwidth (clk (n + 2)) nbytes g
      in case Option.bind (br_increment_resynced_keys_count (clk (n + 3)) i vb 1 (ts_per_conn s)) (\<lambda>p.
              Option.bind (br_increment_resynced_bytes_count (clk (n + 4)) i vb nbytes p)
                (br_increment_bandwidth (clk (n + 5)) i vb nbytes)) of
           None \<Rightarrow> NullDeref
         | Some p \<Rightarrow> Returns (s\<lparr>ts_global := g, ts_per_conn := p, ts_ticks := n + 6\<rparr>))"

text \<open>
  What a \<open>GetRsp\<close> decides: add the record, replace the older one under its CAS value, leave
  the local record alone, or give the record up.
\<close>

datatype write_decision = DoAdd | DoReplace u64 | KeepLocal | BadResult

definition decide_write :: "message \<Rightarrow> u32 \<Rightarrow> write_decision" where
  "decide_write get_rsp new_flags =
     (if result_code get_rsp = result_u16 NO_ERROR
      then (if ts_before (rsp_flags get_rsp) new_flags
            then DoReplace (m_cas (msg_base get_rsp)) else KeepLocal)
      else if result_code get_rsp = result_u16 KEY_NOT_FOUND then DoAdd
      else BadResult)"

text \<open>The body of the loop for a TAP_MUTATE request.\<close>

definition handle_mutate :: "(bytes \<Rightarrow> u32) \<Rightarrow> (nat \<Rightarrow> u32) \<Rightarrow> (nat \<Rightarrow> tick) \<Rightarrow> 'm peer \<Rightarrow> tap_data \<Rightarrow>
    bytes \<Rightarrow> bytes \<Rightarrow> u32 \<Rightarrow> u32 \<Rightarrow> u32 \<Rightarrow> 'm tap_state \<Rightarrow> 'm tap_state outcome" where
  "handle_mutate hash oob clk peer d key val flags expiry nbytes s =
     (let vb = vbucket_for_key hash key; failed = (\<lambda>s. Returns (s\<lparr>ts_success := False\<rparr>))
      in if vb \<notin> set (td_buckets d) then Returns s
         else if starts_with ASTAIRE_KEY_PREFIX key then Returns s
         else
           bind_outcome (local_round_trip oob peer (new_GetReq key 0) s) (\<lambda>(status, rsp, s).
             if status \<noteq> St_OK then failed s
             else case rsp of
               None \<Rightarrow> NullDeref
             | Some get_rsp \<Rightarrow>
                 if \<not> is_response get_rsp \<or> op_code get_rsp \<noteq> op_byte GET then failed s
                 else
                   case decide_write get_rsp flags of
                     BadResult \<Rightarrow> failed s
                   | KeepLocal \<Rightarrow> count_key clk d vb nbytes s
                   | DoAdd \<Rightarrow>
                       bind_outcome (local_round_trip oob peer (new_AddReq key vb val flags expiry) s)
                         (\<lambda>(status, rsp, s).
                           if status \<noteq> St_OK then failed s else count_key clk d vb nbytes s)
                   | DoReplace cas \<Rightarrow>
                       bind_outcome
                         (local_round_trip oob peer (new_ReplaceReq key vb val cas flags expiry) s)
                         (\<lambda>(status, rsp, s).
                           if status \<noteq> St_OK then failed s else count_key clk d vb nbytes s)))"

text \<open>
  The loop over the stream. Every response and every request other than TAP_MUTATE ends it
  with a failure; a closed connection ends it with the success flag as it is.
\<close>

function tap_loop :: "(bytes \<Rightarrow> u32) \<Rightarrow> (nat \<Rightarrow> u32) \<Rightarrow> (nat \<Rightarrow> tick) \<Rightarrow> 'm peer \<Rightarrow> tap_data \<Rightarrow>
    connection \<Rightarrow> 'm tap_state \<Rightarrow> ('m tap_state \<times> connection) outcome" where
  "tap_loop hash oob clk peer d c s =
     bind_outcome (recv oob c) (\<lambda>(status, msg, c').
       if status = St_ERROR then Returns (s\<lparr>ts_success := False\<rparr>, c')
       else if status = St_DISCONNECTED then Returns (s, c')
       else
         case msg of
           None \<Rightarrow> NullDeref
         | Some m \<Rightarrow>
             if is_response m then Returns (s\<lparr>ts_success := False\<rparr>, c')
             else if op_code m = op_byte TAP_MUTATE
             then
               bind_outcome
                 (handle_mutate hash oob clk peer d (m_key (msg_base m)) (mutate_value m)
                    (mutate_flags m) (mutate_expiry m) (of_nat (length (to_wire m))) s)
                 (tap_loop hash oob clk peer d c')
             else Returns (s\<lparr>ts_success := False\<rparr>, c'))"
  by pat_completeness auto
termination
proof (relation "measure (\<lambda>(hash, oob, clk, peer, d, c, s). unread c)", goal_cases)
  case 1
  then show ?case by simp
next
  case (2 hash oob clk peer d c s x status y msg c')
  then have "status = St_OK" by (cases status) auto
  with 2 show ?case by (auto dest: recv_OK_unread)
qed

declare tap_loop.simps [simp del]

text \<open>What the thread does when its loop has ended: the vbuckets are counted and both connections closed.\<close>

definition finish_tap :: "(nat \<Rightarrow> tick) \<Rightarrow> tap_data \<Rightarrow> 'm tap_state \<Rightarrow> 'm tap_state" where
  "finish_tap clk d s =
     (let s = (if ts_success s
               then
                 let n = ts_ticks s; count = (of_nat (length (td_buckets d)) :: u32)
                 in s\<lparr>ts_global := gs_increment_resynced_bucket_count (clk n) count (ts_global s),
                      ts_per_conn := cr_set_resynced_bucket_count (clk (n + 1))
                        (td_conn_stats d) count (ts_per_conn s),
                      ts_ticks := n + 2\<rparr>
               else s)
      in s\<lparr>ts_local_conn := disconnect (ts_local_conn s)\<rparr>)"

definition tap_buckets_thread ::
  "(server \<Rightarrow> (string \<times> int) option) \<Rightarrow> net_env \<Rightarrow> net_env \<Rightarrow> (bytes \<Rightarrow> u32) \<Rightarrow> (nat \<Rightarrow> u32) \<Rightarrow>
    (nat \<Rightarrow> tick) \<Rightarrow> 'm peer \<Rightarrow> 't peer \<Rightarrow> 't \<Rightarrow> tap_data \<Rightarrow> 'm tap_state \<Rightarrow> 'm tap_state outcome" where
  "tap_buckets_thread shp local_env tap_env hash oob clk peer tap_peer tap_init d s =
     (let (rc, local_conn) = connect shp local_env (new_ClientConnection (td_local_server d))
      in if rc \<noteq> 0 then Returns s
         else
           let (rc, tap_conn) = connect shp tap_env (new_ClientConnection (td_tap_server d))
           in if rc \<noteq> 0 then Returns s
              else
                let (_, _, tap_conn) = send tap_peer tap_init tap_conn (new_TapConnectReq (td_buckets d))
                in bind_outcome
                     (tap_loop hash oob clk peer d tap_conn
                        (s\<lparr>ts_success := True, ts_local_conn := local_conn\<rparr>))
                     (\<lambda>(s, tap_conn). Returns (finish_tap clk d s)))"

section \<open>Vbuckets, timestamps and byte counts\<close>

lemma vbucket_for_key_less: "unat (vbucket_for_key hash key) < 128"
proof -
  have "unat (hash key AND 127) \<le> unat (127 :: u32)"
    by (rule word_and_le1 [THEN word_le_nat_alt [THEN iffD1]])
  then show ?thesis
    by (simp add: vbucket_for_key_def unsigned_ucast_eq take_bit_nat_eq_self)
qed

lemma ts_before_wraps: "ts_before a b \<longleftrightarrow> sint (a - b) < 0"
proof (cases "int32_minus a b")
  case (Some d)
  then have d: "d = sint a - sint b" "- (2 ^ 31) \<le> d" "d < 2 ^ 31"
    by (auto simp: int32_minus_def Let_def split: if_splits)
  then have "sint (a - b) = d"
    by (simp add: sint_word_ariths signed_take_bit_int_eq_self)
  with Some show ?thesis by (simp add: ts_before_def)
qed (simp add: ts_before_def)

text \<open>
  The signed 32-bit numbers repeat every \<open>2 ^ 32\<close>: the period in which an integer lies, and its
  place there.
\<close>

definition int32_period :: "int \<Rightarrow> int" where
  "int32_period t = (t + 2 ^ 31) div 2 ^ 32"

lemma sint_period: "sint (word_of_int t :: u32) = t - 2 ^ 32 * int32_period t"
proof -
  have "sint (word_of_int t :: u32) = (t + 2 ^ 31) mod 2 ^ 32 - 2 ^ 31"
    by (simp add: sint_sbintrunc' signed_take_bit_eq_take_bit_shift take_bit_eq_mod)
  then show ?thesis
    using mult_div_mod_eq [of "2 ^ 32" "t + 2 ^ 31"] unfolding int32_period_def by linarith
qed

lemma int32_period_mono: "a \<le> b \<Longrightarrow> int32_period a \<le> int32_period b"
  by (simp add: int32_period_def zdiv_mono1)

lemma ts_before_word_of_int:
  assumes "\<bar>a - b\<bar> < 2 ^ 31"
  shows "ts_before (word_of_int a) (word_of_int b) \<longleftrightarrow> a < b"
proof -
  have "sint (word_of_int (a - b) :: u32) = a - b"
    using assms by (intro sint_word_of_int_u32) auto
  then show ?thesis by (simp add: ts_before_wraps)
qed

lemma length_to_wire_mutate: "length (to_wire (TapMutateReq b v val flags expiry)) = 24 + length (m_key b)"
  by (simp add: length_to_wire)

section \<open>What the thread keeps\<close>

text \<open>
  The requests the thread may make on the local memcached: GET, ADD and REPLACE of keys that
  lie in the tapped vbuckets and are not Astaire's own.
\<close>

definition tap_request :: "(bytes \<Rightarrow> u32) \<Rightarrow> vbucket list \<Rightarrow> message \<Rightarrow> bool" where
  "tap_request hash bs req \<longleftrightarrow>
     op_code req \<in> op_byte ` {GET, ADD, REPLACE} \<and>
     vbucket_for_key hash (m_key (msg_base req)) \<in> set bs \<and>
     \<not> starts_with ASTAIRE_KEY_PREFIX (m_key (msg_base req))"

definition tap_inv :: "('m \<Rightarrow> bool) \<Rightarrow> tap_data \<Rightarrow> 'm tap_state \<Rightarrow> bool" where
  "tap_inv I d s \<longleftrightarrow>
     I (ts_memcached s) \<and> c_rcvtimeo (ts_local_conn s) \<and>
     has_buckets (td_conn_stats d) (td_buckets d) (ts_per_conn s)"

definition keeps :: "(bytes \<Rightarrow> u32) \<Rightarrow> 'm peer \<Rightarrow> vbucket list \<Rightarrow> ('m \<Rightarrow> bool) \<Rightarrow> bool" where
  "keeps hash peer bs I \<longleftrightarrow>
     (\<forall>m req. tap_request hash bs req \<longrightarrow> I m \<longrightarrow> I (fst (peer m (to_wire req))))"

lemma tap_inv_success [simp]: "tap_inv I d (s\<lparr>ts_success := b\<rparr>) \<longleftrightarrow> tap_inv I d s"
  by (simp add: tap_inv_def)

lemma local_round_trip_safe:
  assumes "keeps hash peer (td_buckets d) I" "tap_request hash (td_buckets d) req" "tap_inv I d s"
  shows "safe_outcome (\<lambda>(st, rsp, s'). (st = St_OK \<longleftrightarrow> rsp \<noteq> None) \<and> tap_inv I d s')
    (local_round_trip oob peer req s)"
proof -
  obtain sent m c where snd: "send peer (ts_memcached s) (ts_local_conn s) req = (sent, m, c)"
    by (cases "send peer (ts_memcached s) (ts_local_conn s) req")
  have "I m"
    using assms snd
    by (auto simp: send_def keeps_def tap_inv_def Let_def split: if_splits prod.splits) (metis fst_conv)+
  moreover have "c_rcvtimeo c"
    using assms(3) send_rcvtimeo [OF snd] by (simp add: tap_inv_def)
  ultimately show ?thesis
    using assms(3) unfolding local_round_trip_def snd Let_def prod.case
    by (intro safe_outcome_bind [OF recv_safe]) (auto simp: tap_inv_def)
qed

lemma count_key_safe:
  assumes "tap_inv I d s" "vb \<in> set (td_buckets d)"
  shows "safe_outcome (tap_inv I d) (count_key clk d vb n s)"
proof -
  let ?i = "td_conn_stats d" and ?bs = "td_buckets d"
  have h: "has_buckets ?i ?bs (ts_per_conn s)"
    using assms(1) by (simp add: tap_inv_def)
  obtain p1 where p1: "br_increment_resynced_keys_count (clk (ts_ticks s + 3)) ?i vb 1 (ts_per_conn s) = Some p1"
      "has_buckets ?i ?bs p1"
    using br_increment_Some(1) [OF h assms(2)] by blast
  obtain p2 where p2: "br_increment_resynced_bytes_count (clk (ts_ticks s + 4)) ?i vb n p1 = Some p2"
      "has_buckets ?i ?bs p2"
    using br_increment_Some(2) [OF p1(2) assms(2)] by blast
  obtain p3 where p3: "br_increment_bandwidth (clk (ts_ticks s + 5)) ?i vb n p2 = Some p3"
      "has_buckets ?i ?bs p3"
    using br_increment_Some(3) [OF p2(2) assms(2)] by blast
  show ?thesis
    using assms(1) p1 p2 p3 by (simp add: count_key_def Let_def tap_inv_def)
qed

lemma tap_requests:
  assumes "vbucket_for_key hash key \<in> set bs" "\<not> starts_with ASTAIRE_KEY_PREFIX key"
  shows "tap_request hash bs (new_GetReq key 0)"
    "tap_request hash bs (new_AddReq key vb val flags expiry)"
    "tap_request hash bs (new_ReplaceReq key vb val cas flags expiry)"
  using assms
  by (auto simp: tap_request_def new_GetReq_def new_AddReq_def new_ReplaceReq_def op_code_def base_def
      simp del: op_byte.simps)

lemma handle_mutate_safe:
  assumes "keeps hash peer (td_buckets d) I" "tap_inv I d s"
  shows "safe_outcome (tap_inv I d) (handle_mutate hash oob clk peer d key val flags expiry n s)"
proof (cases "vbucket_for_key hash key \<in> set (td_buckets d) \<and> \<not> starts_with ASTAIRE_KEY_PREFIX key")
  case True
  note reqs = tap_requests [OF conjunct1 [OF True] conjunct2 [OF True]]
  note rt = local_round_trip_safe [OF assms(1)]
  have wr: "safe_outcome (tap_inv I d)
      (bind_outcome (local_round_trip oob peer req s') (\<lambda>(status, rsp, s).
        if status \<noteq> St_OK then Returns (s\<lparr>ts_success := False\<rparr>)
        else count_key clk d (vbucket_for_key hash key) n s))"
    if "tap_request hash (td_buckets d) req" "tap_inv I d s'" for req s'
    using True by (intro safe_outcome_bind [OF rt [OF that]]) (auto intro: count_key_safe)
  show ?thesis
    using True unfolding handle_mutate_def Let_def
    by (auto intro!: safe_outcome_bind [OF rt [OF reqs(1) assms(2)]] count_key_safe wr reqs
        split: option.splits write_decision.splits)
qed (use assms in \<open>auto simp: handle_mutate_def Let_def\<close>)

lemma tap_loop_safe:
  assumes "keeps hash peer (td_buckets d) I"
  shows "tap_inv I d s \<Longrightarrow> c_rcvtimeo c \<Longrightarrow>
    safe_outcome (\<lambda>(s', _). tap_inv I d s') (tap_loop hash oob clk peer d c s)"
  using assms
proof (induction hash oob clk peer d c s rule: tap_loop.induct)
  case (1 hash oob clk peer d c s)
  show ?case
    unfolding tap_loop.simps [of hash oob clk peer d c s]
  proof (rule safe_outcome_bind [OF recv_safe [OF 1(3)]], clarify)
    fix st m c'
    assume r: "recv oob c = Returns (st, m, c')" and m: "st = St_OK \<longleftrightarrow> m \<noteq> None"
      and timeo: "c_rcvtimeo c'"
    have IH: "safe_outcome (\<lambda>(s', _). tap_inv I d s') (tap_loop hash oob clk peer d c' s')"
      if "tap_inv I d s'" "m = Some msg" "st = St_OK" "\<not> is_response msg" "op_code msg = op_byte TAP_MUTATE"
        "handle_mutate hash oob clk peer d (m_key (msg_base msg)) (mutate_value msg)
           (mutate_flags msg) (mutate_expiry msg) (of_nat (length (to_wire msg))) s = Returns s'" for msg s'
      using 1(1) [OF r refl refl _ _ that(2,4,5,6)] that timeo 1(4) by simp
    show "safe_outcome (\<lambda>(s', _). tap_inv I d s')
      (if st = St_ERROR then Returns (s\<lparr>ts_success := False\<rparr>, c')
       else if st = St_DISCONNECTED then Returns (s, c')
       else case m of None \<Rightarrow> NullDeref
            | Some m \<Rightarrow> if is_response m then Returns (s\<lparr>ts_success := False\<rparr>, c')
                else if op_code m = op_byte TAP_MUTATE
                then bind_outcome (handle_mutate hash oob clk peer d (m_key (msg_base m)) (mutate_value m)
                       (mutate_flags m) (mutate_expiry m) (of_nat (length (to_wire m))) s)
                       (tap_loop hash oob clk peer d c')
                else Returns (s\<lparr>ts_success := False\<rparr>, c'))"
    proof (cases st)
      case St_OK
      with m obtain msg where "m = Some msg" by auto
      with St_OK 1(2) show ?thesis
        by (auto intro!: safe_outcome_bind [OF handle_mutate_safe [OF 1(4) 1(2)]] IH)
    qed (use 1(2) in auto)
  qed
qed

section \<open>The stream of a tapped server\<close>

text \<open>
  A TAP_MUTATE request as memcached sends it: eight bytes of engine and tap data (\<open>pre\<close>),
  flags and expiry, then key and value, as drawn in the comment of the \<open>TapMutateReq\<close>
  constructor.
\<close>

fun mutate_wire :: "bytes \<Rightarrow> message \<Rightarrow> bytes" where
  "mutate_wire pre (TapMutateReq b v val flags expiry) =
     hdr_bytes 0x80 (op_byte TAP_MUTATE) (of_nat (length (m_key b))) 16 v
       (of_nat (length ((pre @ be_bytes flags @ be_bytes expiry) @ m_key b @ val)))
       (m_opaque b) (m_cas b)
     @ (pre @ be_bytes flags @ be_bytes expiry) @ m_key b @ val"
| "mutate_wire pre _ = [0]"

fun mutate_ok :: "bytes \<Rightarrow> message \<Rightarrow> bool" where
  "mutate_ok pre (TapMutateReq b v val flags expiry) \<longleftrightarrow>
     length pre = 8 \<and> m_op_code b = op_byte TAP_MUTATE \<and> length (m_key b) < 2 ^ 16"
| "mutate_ok pre _ \<longleftrightarrow> False"

lemma load_u32_after_pre:
  assumes "length pre = 8"
  shows "load_u32 oob (pre @ be_bytes a @ be_bytes b) 2 = a"
    "load_u32 oob (pre @ be_bytes a @ be_bytes b) 3 = b"
  using assms
  by (simp_all add: load_u32_def field_at_def network_to_host_mem_load of_le_bytes_le_bytes)

lemma from_wire_mutate:
  assumes ok: "mutate_ok pre m" and len: "length (mutate_wire pre m @ rest) < 2 ^ 32"
  shows "from_wire oob (mutate_wire pre m @ rest) = Returns (Some (m, rest))"
proof -
  obtain b v val flags expiry where m: "m = TapMutateReq b v val flags expiry"
      and pre: "length pre = 8" and opc: "m_op_code b = op_byte TAP_MUTATE"
      and key: "length (m_key b) < 2 ^ 16"
    using ok by (cases m) auto
  let ?E = "pre @ be_bytes flags @ be_bytes expiry"
  let ?raw = "mutate_wire pre m @ rest"
  have lenE: "length ?E = 16" using pre by simp
  have raw: "?raw = hdr_bytes 0x80 (op_byte TAP_MUTATE) (of_nat (length (m_key b)))
      (of_nat (length ?E)) v (of_nat (length ?E + length (m_key b) + length val)) (m_opaque b) (m_cas b)
      @ ?E @ m_key b @ val @ rest"
    using lenE by (simp add: m add.assoc)
  have lens: "length ?E < 2 ^ 8" "length ?E + length (m_key b) + length val < 2 ^ 32"
    using len lenE by (auto simp: m)
  note parts = parse_parts [OF raw key lens]
  have complete: "is_msg_complete ?raw =
      Some (True, of_nat (length ?E + length (m_key b) + length val), op_byte TAP_MUTATE)"
    unfolding raw using len lens(2) lenE
    by (subst is_msg_complete_hdr) (auto simp: m unat_of_nat_u32 simp del: of_nat_add op_byte.simps)
  have rest: "substr ?raw (sizeof_MsgHdr + unat (of_nat (length ?E + length (m_key b) + length val) :: u32))
      (length ?raw) = Returns rest"
    using lens by (simp add: substr_def sizeof_MsgHdr_def m unat_of_nat_u32 del: of_nat_add)
  have "parse_request oob (op_byte TAP_MUTATE) ?raw = Returns m"
    using parts opc pre by (simp add: parse_defs load_u32_after_pre m base_message_eta)
  then show ?thesis
    by (simp add: from_wire_def complete rest del: of_nat_add length_append op_byte.simps)
qed

interpretation mutate: framed_codec "mutate_wire pre" "from_wire oob" "mutate_ok pre" "2 ^ 32" for pre oob
proof unfold_locales
  fix m k rest
  show "from_wire oob (mutate_wire pre m @ rest) = Returns (Some (m, rest))"
    if "mutate_ok pre m" "length (mutate_wire pre m @ rest) < 2 ^ 32"
    using from_wire_mutate that by blast
  show "from_wire oob (take k (mutate_wire pre m)) = Returns None"
    if "mutate_ok pre m" and lens: "length (mutate_wire pre m) < 2 ^ 32" "k < length (mutate_wire pre m)"
  proof -
    from that(1) obtain b v val flags expiry where "m = TapMutateReq b v val flags expiry"
      by (cases m) auto
    then show ?thesis
      by (intro from_wire_hdr_prefix [OF _ lens]) (simp only: mutate_wire.simps)
  qed
  show "mutate_wire pre m \<noteq> []"
    by (cases m) (auto simp: hdr_bytes_def)
qed

section \<open>Properties\<close>

text \<open>The errno a failed system call leaves is not 0.\<close>

definition errno_set :: "net_env \<Rightarrow> bool" where
  "errno_set env \<longleftrightarrow> snd (ne_socket env) \<noteq> 0 \<and> snd (ne_connect env) \<noteq> 0 \<and> snd (ne_setsockopt env) \<noteq> 0"

lemma connect_timeo:
  assumes "errno_set env" "connect shp env (new_ClientConnection a) = (0, c)"
  shows "c_rcvtimeo c"
  using assms connect_result(1) [OF assms(2)] by (simp add: errno_set_def new_ClientConnection_def)

text \<open>
  C19: The tap thread always ends, never dereferences a null bucket record and never blocks for
  good, whatever the tapped server and the local memcached send. The only requests it makes on
  the local memcached are GET, ADD and REPLACE of keys in its vbuckets other than Astaire's
  own, so every property of the memcached state that such requests keep is kept.
\<close>

theorem tap_thread_safe_and_confined:
  assumes "errno_set local_env" "errno_set tap_env"
    and "has_buckets (td_conn_stats d) (td_buckets d) (ts_per_conn s)"
    and "keeps hash peer (td_buckets d) I" "I (ts_memcached s)"
  shows "safe_outcome (\<lambda>s'. I (ts_memcached s'))
    (tap_buckets_thread shp local_env tap_env hash oob clk peer tap_peer t d s)"
proof -
  obtain rc lc where lc: "connect shp local_env (new_ClientConnection (td_local_server d)) = (rc, lc)"
    by (cases "connect shp local_env (new_ClientConnection (td_local_server d))")
  obtain rc' tc where tc: "connect shp tap_env (new_ClientConnection (td_tap_server d)) = (rc', tc)"
    by (cases "connect shp tap_env (new_ClientConnection (td_tap_server d))")
  obtain b t' tc' where snd: "send tap_peer t tc (new_TapConnectReq (td_buckets d)) = (b, t', tc')"
    by (cases "send tap_peer t tc (new_TapConnectReq (td_buckets d))")
  have "safe_outcome (\<lambda>(s', _). tap_inv I d s')
      (tap_loop hash oob clk peer d tc' (s\<lparr>ts_success := True, ts_local_conn := lc\<rparr>))"
    if "rc = 0" "rc' = 0"
    using that lc tc snd assms
    by (intro tap_loop_safe) (auto simp: tap_inv_def send_rcvtimeo intro: connect_timeo)
  then show ?thesis
    using assms(5)
    by (auto simp: tap_buckets_thread_def finish_tap_def lc tc snd Let_def tap_inv_def intro!: safe_outcome_bind)
qed

definition wit_env :: net_env where
  "wit_env = \<lparr>ne_getaddrinfo = \<lambda>_ _. 0, ne_socket = (3, 1), ne_connect = (0, 1), ne_setsockopt = (0, 1)\<rparr>"

definition wit_shp :: "server \<Rightarrow> (string \<times> int) option" where
  "wit_shp _ = Some (''10.0.0.1'', 11211)"

definition wit_data :: tap_data where
  "wit_data = \<lparr>td_tap_server = ''10.0.0.2:11211'', td_local_server = ''10.0.0.1:11211'',
               td_buckets = [0, 7], td_conn_stats = 0\<rparr>"

definition wit_tap_state :: "'m \<Rightarrow> 'm tap_state" where
  "wit_tap_state m =
     \<lparr>ts_success = False, ts_memcached = m, ts_local_conn = new_ClientConnection ''10.0.0.1:11211'',
      ts_global = \<lparr>gs_total_buckets = 2, gs_resynced_bucket_count = 0, gs_resynced_keys_count = 0,
        gs_resynced_bytes_count = 0, gs_bandwidth_raw = 0, gs_bandwidth = 0, gs_timestamp_us = 0,
        gs_period_us = 5000000, gs_reports = []\<rparr>,
      ts_per_conn = \<lparr>pc_connections = [new_ConnectionRecord ''10.0.0.2'' 11211 [0, 7]], pc_timestamp_us = 0,
        pc_period_us = 5000000, pc_reports = []\<rparr>,
      ts_ticks = 0\<rparr>"

lemma wit_has_buckets:
  "has_buckets (td_conn_stats wit_data) (td_buckets wit_data) (ts_per_conn (wit_tap_state m))"
  by (simp add: has_buckets_def wit_data_def wit_tap_state_def keys_new_ConnectionRecord)

text \<open>The witness counts the DELETE and SET requests a memcached receives: there are none.\<close>

definition counting_peer :: "nat peer" where
  "counting_peer n bin =
     (if hdr_op_code bin \<in> op_byte ` {GET, ADD, REPLACE} then n else n + 1, True, [RecvError 104])"

theorem tap_thread_safe_and_confined_witness:
  "safe_outcome (\<lambda>s'. ts_memcached s' = 0)
     (tap_buckets_thread wit_shp wit_env wit_env (\<lambda>_. 0) (\<lambda>_. 0) (\<lambda>_. (0, True)) counting_peer
        (\<lambda>t bin. (t, True, [RecvError 104])) () wit_data (wit_tap_state 0))"
proof -
  have "errno_set wit_env" by (simp add: errno_set_def wit_env_def)
  moreover have "keeps (\<lambda>_. 0) counting_peer (td_buckets wit_data) (\<lambda>n. n = 0)"
    by (auto simp: keeps_def counting_peer_def tap_request_def to_wire_eq hdr_fields simp del: op_byte.simps)
  ultimately show ?thesis
    using tap_thread_safe_and_confined [of wit_env wit_env wit_data "wit_tap_state 0" "\<lambda>_. 0" counting_peer
        "\<lambda>n. n = 0" wit_shp "\<lambda>_. 0" "\<lambda>_. (0, True)" "\<lambda>t bin. (t, True, [RecvError 104])" "()"]
      wit_has_buckets [of "0 :: nat"]
    by (simp add: wit_tap_state_def)
qed

text \<open>
  C37: Timestamps are compared by the sign of the difference of their signed 32-bit readings. For
  two times less than \<open>2 ^ 31\<close> milliseconds apart that difference is defined exactly when both lie
  in the same period of the signed numbers. It is then the difference of the times, also when
  the unsigned counter has wrapped between them, and the comparison is the order of the times.
  Across the border of two periods, which comes every 50 days, the code has no meaning: a
  subtraction that wraps still gives the order of the times, and a signed comparison, by which
  a compiler may replace the subtraction, gives the reverse order.
\<close>

theorem ts_before_is_time_order:
  assumes "\<bar>a - b\<bar> < 2 ^ 31"
  shows "int32_minus (word_of_int a) (word_of_int b) =
      (if int32_period a = int32_period b then Some (a - b) else None) \<and>
    (int32_period a = int32_period b \<longrightarrow> (ts_before (word_of_int a) (word_of_int b) \<longleftrightarrow> a < b)) \<and>
    (int32_period a \<noteq> int32_period b \<longrightarrow>
       (sint (word_of_int a - word_of_int b :: u32) < 0 \<longleftrightarrow> a < b) \<and>
       (sint (word_of_int a :: u32) < sint (word_of_int b :: u32) \<longleftrightarrow> b < a))"
proof (cases "int32_period a = int32_period b")
  case True
  with assms show ?thesis
    using ts_before_word_of_int [OF assms] by (auto simp: int32_minus_def sint_period Let_def)
next
  case False
  then have "a < b \<and> int32_period a + 1 \<le> int32_period b \<or> b < a \<and> int32_period b + 1 \<le> int32_period a"
    using int32_period_mono [of a b] int32_period_mono [of b a] by linarith
  with assms have "int32_minus (word_of_int a) (word_of_int b) = None"
      "sint (word_of_int a :: u32) < sint (word_of_int b :: u32) \<longleftrightarrow> b < a"
    by (auto simp: int32_minus_def sint_period Let_def)
  with False show ?thesis
    using ts_before_word_of_int [OF assms] ts_before_wraps [of "word_of_int a" "word_of_int b"] by auto
qed

theorem ts_before_is_time_order_witness:
  "int32_minus 0xFFFFFFFF 5 = Some (- 6) \<and> ts_before 0xFFFFFFFF 5 \<and> int32_minus 0x7FFFFFFF 0x80000000 = None \<and>
   \<not> sint (0x7FFFFFFF :: u32) < sint (0x80000000 :: u32)"
proof -
  have "int32_period 0xFFFFFFFF = 1" "int32_period 0x100000005 = 1" "int32_period 0x7FFFFFFF = 0"
      "int32_period 0x80000000 = 1"
    by (simp_all add: int32_period_def)
  moreover have five: "word_of_int 0x100000005 = (5 :: u32)" by simp
  ultimately show ?thesis
    using ts_before_is_time_order [of "0xFFFFFFFF" "0x100000005", unfolded five]
      ts_before_is_time_order [of "0x7FFFFFFF" "0x80000000"] by simp
qed

text \<open>The vbucket of a key is below 128 and given by the low seven bits of its hash.\<close>

lemma vbucket_for_key_range:
  "unat (vbucket_for_key hash key) = unat (hash key) mod 128 \<and> unat (vbucket_for_key hash key) < 128"
  by (simp add: vbucket_for_key_def unsigned_ucast_eq take_bit_nat_eq_self unat_and_127)

text \<open>
  The byte count a streamed record adds to the statistics is 24 plus the length of its
  key: \<open>mutate->to_wire().size()\<close> leaves out the value and the extras, which a TAP_MUTATE
  request has on the wire.
\<close>

lemma resynced_bytes_leave_out_value:
  assumes "mutate_ok pre m" "length (mutate_wire pre m) < 2 ^ 32"
  shows "from_wire oob (mutate_wire pre m) = Returns (Some (m, [])) \<and>
    length (to_wire m) = 24 + length (m_key (msg_base m)) \<and>
    length (mutate_wire pre m) = length (to_wire m) + 16 + length (mutate_value m)"
proof -
  have "from_wire oob (mutate_wire pre m @ []) = Returns (Some (m, []))"
    using assms by (intro from_wire_mutate) auto
  then show ?thesis
    using assms(1) by (cases m) (auto simp: length_to_wire)
qed

definition wit_mutation :: message where
  "wit_mutation = TapMutateReq \<lparr>m_op_code = op_byte TAP_MUTATE, m_key = [1], m_opaque = 0, m_cas = 0\<rparr> 0 [2, 3] 9 0"

end
