(* ===== verification/Backend.thy ===== *)
theory Backend
  imports Tap "HOL-Library.Multiset"
begin

text \<open>
  \<open>MemcachedBackend\<close> of \<open>memcached_backend.cpp\<close>: the store behind the Rogers proxy. It maps
  keys to vbuckets and vbuckets to replicas, reads from the replicas in turn, writes to the
  first that responds and copies to the rest, deletes from all of them, and keeps the state of
  the vbuckets for the alarm.

  libmemcached, its connection pool, \<open>MemcachedStoreView\<close> and the address parsers of cpp-common
  are parameters. The replicas are the world \<open>'w\<close> that the calls of libmemcached change.
\<close>

section \<open>Parameters: libmemcached and the cluster view\<close>

text \<open>The return codes the source names; the others are told apart by a number.\<close>

datatype memcached_return =
  MEMCACHED_SUCCESS | MEMCACHED_ERROR | MEMCACHED_NOTFOUND | MEMCACHED_NOTSTORED
| MEMCACHED_DATA_EXISTS | MEMCACHED_CONNECTION_FAILURE | MEMCACHED_OTHER nat

record AddrInfo =
  ai_address :: string
  ai_port :: int

text \<open>The write requests, each with key, vbucket, data, expiry and flags.\<close>

record write_args =
  w_key :: bytes
  w_vbucket :: nat
  w_data :: bytes
  w_expiry :: int
  w_flags :: u32

datatype write_cmd = AddVb write_args | SetVb bool write_args | ReplaceVb write_args | CasVb write_args u64

record 'w libmemcached =
  lm_success :: "memcached_return \<Rightarrow> bool"
  lm_mget :: "AddrInfo \<Rightarrow> bytes \<Rightarrow> 'w \<Rightarrow> memcached_return \<times> 'w"
  lm_fetch_result :: "AddrInfo \<Rightarrow> 'w \<Rightarrow> memcached_return \<times> bytes \<times> u64 \<times> 'w"
  lm_write :: "AddrInfo \<Rightarrow> write_cmd \<Rightarrow> 'w \<Rightarrow> memcached_return \<times> 'w"
  lm_delete :: "AddrInfo \<Rightarrow> bytes \<Rightarrow> 'w \<Rightarrow> memcached_return \<times> 'w"

text \<open>What a view built from a configuration answers.\<close>

record store_view =
  sv_servers :: "server list"
  sv_read_replicas :: "nat \<Rightarrow> server list"
  sv_write_replicas :: "nat \<Rightarrow> server list"

record ('w, 'c) backend_env =
  bn_lib :: "'w libmemcached"
  bn_view :: "nat \<Rightarrow> nat \<Rightarrow> 'c \<Rightarrow> store_view"
  bn_split_host_port :: "string \<Rightarrow> (string \<times> int) option"
  bn_parse_ip_target :: "string \<Rightarrow> string option"
  bn_hash :: "bytes \<Rightarrow> u32"
  bn_monitor :: bool
  bn_alarm :: bool

section \<open>State\<close>

datatype CommState = Comm_OK | Comm_FAILED

datatype alarm_call = Alarm_set | Alarm_clear

text \<open>
  The members, the calls made on the alarm and on the communication monitor (success or
  failure), and the requests sent to replicas.
\<close>

datatype sent_request = SentGet bytes | SentWrite write_cmd | SentDelete bytes

record backend =
  be_servers :: "server list"
  be_read_replicas :: "server list list"
  be_write_replicas :: "server list list"
  be_vbucket_comm_state :: "CommState list"
  be_vbucket_comm_fail_count :: u32
  be_next_vbucket_alarm_update :: u64
  be_alarm_calls :: "alarm_call list"
  be_monitor_calls :: "bool list"
  be_sent :: "(AddrInfo \<times> sent_request) list"

definition vbuckets :: nat where
  "vbuckets = 128"

definition replicas :: nat where
  "replicas = 2"

definition update_period_ms :: u64 where
  "update_period_ms = 30 * 1000"

definition new_MemcachedBackend :: backend where
  "new_MemcachedBackend =
     \<lparr>be_servers = [], be_read_replicas = replicate vbuckets [], be_write_replicas = replicate vbuckets [],
      be_vbucket_comm_state = replicate vbuckets Comm_OK, be_vbucket_comm_fail_count = 0,
      be_next_vbucket_alarm_update = 0, be_alarm_calls = [], be_monitor_calls = [], be_sent = []\<rparr>"

definition has_servers :: "backend \<Rightarrow> bool" where
  "has_servers b \<longleftrightarrow> length (be_servers b) > 0"

section \<open>View and replicas\<close>

definition new_view :: "('w, 'c) backend_env \<Rightarrow> 'c \<Rightarrow> backend \<Rightarrow> backend" where
  "new_view E config b =
     (let view = bn_view E vbuckets replicas config
      in b\<lparr>be_servers := sv_servers view,
           be_read_replicas := fold (\<lambda>ii rs. rs[ii := sv_read_replicas view ii]) [0..<vbuckets] (be_read_replicas b),
           be_write_replicas := fold (\<lambda>ii rs. rs[ii := sv_write_replicas view ii]) [0..<vbuckets] (be_write_replicas b)\<rparr>)"

text \<open>\<open>read_config\<close> yields a configuration or fails.\<close>

definition update_config :: "('w, 'c) backend_env \<Rightarrow> 'c option \<Rightarrow> backend \<Rightarrow> backend" where
  "update_config E config b = (case config of None \<Rightarrow> b | Some cfg \<Rightarrow> new_view E cfg b)"

text \<open>The \<open>int\<close> hash is masked with a non-negative number, so that its sign does not matter.\<close>

definition be_vbucket_for_key :: "('w, 'c) backend_env \<Rightarrow> bytes \<Rightarrow> nat" where
  "be_vbucket_for_key E key = unat (bn_hash E key AND (of_nat vbuckets - 1))"

datatype Op = READ | WRITE

fun parse_replica :: "('w, 'c) backend_env \<Rightarrow> server \<Rightarrow> AddrInfo option" where
  "parse_replica E server =
     (case bn_split_host_port E server of
        None \<Rightarrow> None
      | Some (host, port) \<Rightarrow>
          (case bn_parse_ip_target E host of
             None \<Rightarrow> None
           | Some ip \<Rightarrow> Some \<lparr>ai_address = ip, ai_port = port\<rparr>))"

definition get_replica_addresses :: "('w, 'c) backend_env \<Rightarrow> backend \<Rightarrow> nat \<Rightarrow> Op \<Rightarrow> AddrInfo list" where
  "get_replica_addresses E b vbucket operation =
     (let replica_list = (if operation = READ then be_read_replicas b ! vbucket else be_write_replicas b ! vbucket)
      in List.map_filter (parse_replica E) replica_list)"

section \<open>Communication state\<close>

text \<open>
  The monotonic clock, read as seconds and nanoseconds. \<open>update_vbucket_comm_state\<close> reads it
  twice; the two results are the pair \<open>t\<close>.
\<close>

definition current_time_ms :: "int \<times> int \<Rightarrow> u64" where
  "current_time_ms ts = word_of_int (fst ts * 1000 + snd ts div 1000000)"

definition set_comm_state :: "nat \<Rightarrow> CommState \<Rightarrow> backend \<Rightarrow> backend" where
  "set_comm_state vbucket state b =
     (if be_vbucket_comm_state b ! vbucket \<noteq> state
      then
        let n = be_vbucket_comm_fail_count b;
            n = (if state = Comm_OK then if n > 0 then n - 1 else n else n + 1)
        in b\<lparr>be_vbucket_comm_fail_count := n,
             be_vbucket_comm_state := (be_vbucket_comm_state b)[vbucket := state]\<rparr>
      else b)"

definition update_vbucket_comm_state ::
  "('w, 'c) backend_env \<Rightarrow> u64 \<times> u64 \<Rightarrow> nat \<Rightarrow> CommState \<Rightarrow> backend \<Rightarrow> backend" where
  "update_vbucket_comm_state E t vbucket state b =
     (if bn_alarm E
      then
        let b = set_comm_state vbucket state b
        in if fst t > be_next_vbucket_alarm_update b
           then b\<lparr>be_alarm_calls := be_alarm_calls b @
                    [if be_vbucket_comm_fail_count b = 0 then Alarm_clear else Alarm_set],
                  be_next_vbucket_alarm_update := snd t + update_period_ms\<rparr>
           else b
      else b)"

definition inform :: "('w, 'c) backend_env \<Rightarrow> bool \<Rightarrow> backend \<Rightarrow> backend" where
  "inform E success b =
     (if bn_monitor E then b\<lparr>be_monitor_calls := be_monitor_calls b @ [success]\<rparr> else b)"

definition sent :: "AddrInfo \<Rightarrow> sent_request \<Rightarrow> backend \<Rightarrow> backend" where
  "sent addr req b = b\<lparr>be_sent := be_sent b @ [(addr, req)]\<rparr>"

section \<open>Reading\<close>

definition get_from_replica :: "'w libmemcached \<Rightarrow> AddrInfo \<Rightarrow> bytes \<Rightarrow> bytes \<Rightarrow> 'w \<Rightarrow>
    memcached_return \<times> bytes \<times> u64 \<times> 'w" where
  "get_from_replica lib replica key data w =
     (let (rc, w) = lm_mget lib replica key w
      in if lm_success lib rc
         then
           let (rc, val, cas, w) = lm_fetch_result lib replica w
           in if lm_success lib rc then (rc, val, cas, w) else (rc, data, 0, w)
         else (rc, data, 0, w))"

text \<open>The variables of the loop of \<open>read_data\<close>.\<close>

record read_vars =
  r_rc :: memcached_return
  r_data :: bytes
  r_cas :: u64
  r_active_not_found :: bool
  r_failed_replicas :: nat

definition attempts :: "AddrInfo list \<Rightarrow> nat" where
  "attempts replica_addresses =
     (if length replica_addresses = 1 then 2 else length replica_addresses)"

text \<open>\<open>n\<close> is the number of attempts left, \<open>ii\<close> the loop counter.\<close>

fun read_loop :: "'w libmemcached \<Rightarrow> AddrInfo list \<Rightarrow> bytes \<Rightarrow> nat \<Rightarrow> nat \<Rightarrow> read_vars \<Rightarrow> backend \<Rightarrow> 'w \<Rightarrow>
    read_vars \<times> backend \<times> 'w" where
  "read_loop lib addrs key 0 ii v b w = (v, b, w)"
| "read_loop lib addrs key (Suc n) ii v b w =
     (if length addrs = 1 \<and> ii = 1 \<and> r_rc v \<noteq> MEMCACHED_CONNECTION_FAILURE then (v, b, w)
      else
        let replica_idx = (if length addrs = 1 \<and> ii = 1 then 0 else ii);
            b = sent (addrs ! replica_idx) (SentGet key) b;
            (rc, data, cas, w) = get_from_replica lib (addrs ! replica_idx) key (r_data v) w;
            v = v\<lparr>r_rc := rc, r_data := data, r_cas := cas\<rparr>
        in if lm_success lib rc then (v, b, w)
           else if rc = MEMCACHED_NOTFOUND
           then read_loop lib addrs key n (ii + 1) (v\<lparr>r_active_not_found := True\<rparr>) b w
           else read_loop lib addrs key n (ii + 1) (v\<lparr>r_failed_replicas := r_failed_replicas v + 1\<rparr>) b w)"

text \<open>
  \<open>read_data\<close>, with the caller's \<open>data\<close> and \<open>cas\<close>, which it may leave as they are. The
  result is the status, data, CAS, state and world.
\<close>

definition read_data :: "('w, 'c) backend_env \<Rightarrow> u64 \<times> u64 \<Rightarrow> bytes \<Rightarrow> bytes \<Rightarrow> u64 \<Rightarrow> backend \<Rightarrow> 'w \<Rightarrow>
    ResultCode \<times> bytes \<times> u64 \<times> backend \<times> 'w" where
  "read_data E t key data cas b w =
     (let vbucket = be_vbucket_for_key E key;
          replica_addresses = get_replica_addresses E b vbucket READ;
          (v, b, w) = read_loop (bn_lib E) replica_addresses key (attempts replica_addresses) 0
            \<lparr>r_rc = MEMCACHED_ERROR, r_data = data, r_cas = cas, r_active_not_found = False,
             r_failed_replicas = 0\<rparr> b w
      in if lm_success (bn_lib E) (r_rc v)
         then (NO_ERROR, r_data v, if r_active_not_found v then 0 else r_cas v,
               inform E True (update_vbucket_comm_state E t vbucket Comm_OK b), w)
         else if r_failed_replicas v < length replica_addresses
         then (KEY_NOT_FOUND, r_data v, r_cas v,
               inform E True (update_vbucket_comm_state E t vbucket Comm_OK b), w)
         else (TEMPORARY_FAILURE, r_data v, r_cas v,
               inform E False (update_vbucket_comm_state E t vbucket Comm_FAILED b), w))"

section \<open>Writing\<close>

fun libmemcached_result_to_memcache_status :: "memcached_return \<Rightarrow> ResultCode" where
  "libmemcached_result_to_memcache_status MEMCACHED_NOTFOUND = KEY_NOT_FOUND"
| "libmemcached_result_to_memcache_status MEMCACHED_DATA_EXISTS = KEY_EXISTS"
| "libmemcached_result_to_memcache_status MEMCACHED_NOTSTORED = ITEM_NOT_STORED"
| "libmemcached_result_to_memcache_status _ = TEMPORARY_FAILURE"

definition contention :: "memcached_return \<Rightarrow> bool" where
  "contention rc \<longleftrightarrow> rc = MEMCACHED_NOTFOUND \<or> rc = MEMCACHED_NOTSTORED \<or> rc = MEMCACHED_DATA_EXISTS"

text \<open>The request of the conditional write.\<close>

definition conditional_cmd :: "OpCode \<Rightarrow> u64 \<Rightarrow> write_args \<Rightarrow> write_cmd" where
  "conditional_cmd operation cas args =
     (if operation = ADD then AddVb args
      else if operation = SET then SetVb False args
      else if cas = 0 then ReplaceVb args
      else CasVb args cas)"

record write_vars =
  wv_rc :: memcached_return
  wv_status :: ResultCode
  wv_replica_idx :: nat

fun write_loop :: "'w libmemcached \<Rightarrow> AddrInfo list \<Rightarrow> write_cmd \<Rightarrow> nat \<Rightarrow> nat \<Rightarrow> write_vars \<Rightarrow> backend \<Rightarrow> 'w \<Rightarrow>
    write_vars \<times> backend \<times> 'w" where
  "write_loop lib addrs cmd 0 ii v b w = (v, b, w)"
| "write_loop lib addrs cmd (Suc n) ii v b w =
     (if length addrs = 1 \<and> ii = 1 \<and> wv_rc v \<noteq> MEMCACHED_CONNECTION_FAILURE then (v, b, w)
      else
        let replica_idx = (if length addrs = 1 \<and> ii = 1 then 0 else ii);
            b = sent (addrs ! replica_idx) (SentWrite cmd) b;
            (rc, w) = lm_write lib (addrs ! replica_idx) cmd w;
            v = v\<lparr>wv_rc := rc, wv_replica_idx := replica_idx\<rparr>
        in if lm_success lib rc then (v, b, w)
           else if contention rc
           then (v\<lparr>wv_status := libmemcached_result_to_memcache_status rc\<rparr>, b, w)
           else write_loop lib addrs cmd n (ii + 1) v b w)"

text \<open>The unconditional writes to the replicas \<open>addrs\<close> that are left; their results are ignored.\<close>

fun copy_loop :: "'w libmemcached \<Rightarrow> write_args \<Rightarrow> AddrInfo list \<Rightarrow> backend \<Rightarrow> 'w \<Rightarrow> backend \<times> 'w" where
  "copy_loop lib args [] b w = (b, w)"
| "copy_loop lib args (addr # addrs) b w =
     (let (_, w) = lm_write lib addr (SetVb True args) w
      in copy_loop lib args addrs (sent addr (SentWrite (SetVb True args)) b) w)"

text \<open>The clock of the flags is read as seconds and nanoseconds.\<close>

definition timestamp_flags :: "int \<Rightarrow> int \<Rightarrow> u32" where
  "timestamp_flags tv_sec tv_nsec = word_of_int (tv_sec * 1000 + tv_nsec div 1000000)"

text \<open>
  What follows the conditional writes: the copies to the later replicas, and the state of the
  vbucket and the communication monitor.
\<close>

definition finish_write :: "('w, 'c) backend_env \<Rightarrow> u64 \<times> u64 \<Rightarrow> AddrInfo list \<Rightarrow> write_args \<Rightarrow> write_vars \<Rightarrow> backend \<Rightarrow> 'w \<Rightarrow>
    ResultCode \<times> backend \<times> 'w" where
  "finish_write E t replica_addresses args v b w =
     (let success = lm_success (bn_lib E) (wv_rc v);
          (b, w) = (if success \<and> wv_replica_idx v < length replica_addresses
                    then copy_loop (bn_lib E) args (drop (wv_replica_idx v + 1) replica_addresses) b w
                    else (b, w))
      in if \<not> success \<and> \<not> contention (wv_rc v)
         then (TEMPORARY_FAILURE, inform E False (update_vbucket_comm_state E t (w_vbucket args) Comm_FAILED b), w)
         else (wv_status v, inform E True (update_vbucket_comm_state E t (w_vbucket args) Comm_OK b), w))"

definition write_data :: "('w, 'c) backend_env \<Rightarrow> u64 \<times> u64 \<Rightarrow> int \<times> int \<Rightarrow> OpCode \<Rightarrow> bytes \<Rightarrow> bytes \<Rightarrow> u64 \<Rightarrow>
    int \<Rightarrow> backend \<Rightarrow> 'w \<Rightarrow> ResultCode \<times> backend \<times> 'w" where
  "write_data E t ts operation key data cas expiry b w =
     (if operation \<noteq> ADD \<and> operation \<noteq> SET \<and> operation \<noteq> REPLACE then (NOT_SUPPORTED, b, w)
      else
        let vbucket = be_vbucket_for_key E key;
            replica_addresses = get_replica_addresses E b vbucket WRITE;
            flags = timestamp_flags (fst ts) (snd ts);
            args = \<lparr>w_key = key, w_vbucket = vbucket, w_data = data, w_expiry = expiry, w_flags = flags\<rparr>;
            (v, b, w) = write_loop (bn_lib E) replica_addresses (conditional_cmd operation cas args)
              (attempts replica_addresses) 0
              \<lparr>wv_rc = MEMCACHED_ERROR, wv_status = NO_ERROR, wv_replica_idx = 0\<rparr> b w
        in finish_write E t replica_addresses args v b w)"

section \<open>Deleting\<close>

fun delete_loop :: "'w libmemcached \<Rightarrow> bytes \<Rightarrow> AddrInfo list \<Rightarrow> ResultCode \<Rightarrow> backend \<Rightarrow> 'w \<Rightarrow>
    ResultCode \<times> backend \<times> 'w" where
  "delete_loop lib key [] best_status b w = (best_status, b, w)"
| "delete_loop lib key (addr # addrs) best_status b w =
     (let (rc, w) = lm_delete lib addr key w;
          best_status =
            (if \<not> lm_success lib rc
             then if best_status \<noteq> NO_ERROR then libmemcached_result_to_memcache_status rc else best_status
             else NO_ERROR)
      in delete_loop lib key addrs best_status (sent addr (SentDelete key) b) w)"

definition delete_data :: "('w, 'c) backend_env \<Rightarrow> bytes \<Rightarrow> backend \<Rightarrow> 'w \<Rightarrow> ResultCode \<times> backend \<times> 'w" where
  "delete_data E key b w =
     delete_loop (bn_lib E) key (get_replica_addresses E b (be_vbucket_for_key E key) READ)
       TEMPORARY_FAILURE b w"

section \<open>The invariant of the vbucket state\<close>

definition failed_vbuckets :: "backend \<Rightarrow> nat" where
  "failed_vbuckets b = count (mset (be_vbucket_comm_state b)) Comm_FAILED"

definition be_inv :: "backend \<Rightarrow> bool" where
  "be_inv b \<longleftrightarrow>
     length (be_read_replicas b) = vbuckets \<and> length (be_write_replicas b) = vbuckets \<and>
     length (be_vbucket_comm_state b) = vbuckets \<and>
     unat (be_vbucket_comm_fail_count b) = failed_vbuckets b"

lemma be_inv_new: "be_inv new_MemcachedBackend"
  by (simp add: be_inv_def new_MemcachedBackend_def failed_vbuckets_def)

lemma be_vbucket_for_key_less: "be_vbucket_for_key E key < vbuckets"
proof -
  have "unat (bn_hash E key AND 127) \<le> unat (127 :: u32)"
    by (rule word_and_le1 [THEN word_le_nat_alt [THEN iffD1]])
  then show ?thesis by (simp add: be_vbucket_for_key_def vbuckets_def)
qed

lemma failed_vbuckets_le: "be_inv b \<Longrightarrow> failed_vbuckets b \<le> vbuckets"
  using count_le_size [of "mset (be_vbucket_comm_state b)" Comm_FAILED]
  by (simp add: failed_vbuckets_def be_inv_def)

lemma be_inv_set_comm_state:
  assumes inv: "be_inv b" and vb: "vb < vbuckets"
  shows "be_inv (set_comm_state vb st b)"
proof (cases "be_vbucket_comm_state b ! vb = st")
  case False
  let ?ms = "mset (be_vbucket_comm_state b)" and ?old = "be_vbucket_comm_state b ! vb"
  have len: "vb < length (be_vbucket_comm_state b)" using inv vb by (simp add: be_inv_def)
  have ms: "mset ((be_vbucket_comm_state b)[vb := st]) = add_mset st (?ms - {#?old#})"
    by (rule mset_update [OF len])
  have le: "unat (be_vbucket_comm_fail_count b) \<le> 128"
    using inv failed_vbuckets_le [OF inv] by (simp add: be_inv_def vbuckets_def)
  show ?thesis
  proof (cases st)
    case Comm_OK
    with False have old: "?old = Comm_FAILED" by (cases ?old) auto
    then have "0 < failed_vbuckets b"
      using nth_mem [OF len] by (simp add: failed_vbuckets_def)
    then have pos: "be_vbucket_comm_fail_count b > 0" "unat (be_vbucket_comm_fail_count b) \<noteq> 0"
      using inv by (auto simp: be_inv_def word_gt_0)
    then have "unat (be_vbucket_comm_fail_count b - 1) = failed_vbuckets b - 1"
      using inv by (simp add: be_inv_def unat_minus_one)
    with inv Comm_OK pos old show ?thesis
      by (simp add: set_comm_state_def be_inv_def failed_vbuckets_def ms [unfolded Comm_OK])
  next
    case Comm_FAILED
    with False have old: "?old = Comm_OK" by (cases ?old) auto
    have "unat (be_vbucket_comm_fail_count b + 1) = failed_vbuckets b + 1"
      using inv le by (simp add: be_inv_def unat_plus_simple [THEN iffD1] word_le_nat_alt unat_word_ariths)
    with inv Comm_FAILED old show ?thesis
      by (simp add: set_comm_state_def be_inv_def failed_vbuckets_def ms [unfolded Comm_FAILED])
  qed
qed (use inv in \<open>simp add: set_comm_state_def\<close>)

lemma be_inv_frame [simp]:
  "be_inv (b\<lparr>be_sent := x\<rparr>) = be_inv b" "be_inv (b\<lparr>be_monitor_calls := y\<rparr>) = be_inv b"
  "be_inv (b\<lparr>be_alarm_calls := z, be_next_vbucket_alarm_update := n\<rparr>) = be_inv b"
  by (simp_all add: be_inv_def failed_vbuckets_def)

lemma be_inv_update:
  "be_inv b \<Longrightarrow> vb < vbuckets \<Longrightarrow> be_inv (update_vbucket_comm_state E t vb st b)"
  using be_inv_set_comm_state [of b vb st] by (simp add: update_vbucket_comm_state_def Let_def)

lemma be_inv_inform [simp]: "be_inv (inform E ok b) = be_inv b"
  by (simp add: inform_def)

text \<open>The loops over the replicas only record what they send.\<close>

lemma sent_more [simp]: "be_inv (sent a r b) = be_inv b"
  by (simp add: sent_def)

lemma read_loop_inv: "be_inv (fst (snd (read_loop lib addrs key n ii v b w))) = be_inv b"
  by (induction n arbitrary: ii v b w) (simp_all add: Let_def split_def)

lemma write_loop_inv: "be_inv (fst (snd (write_loop lib addrs cmd n ii v b w))) = be_inv b"
  by (induction n arbitrary: ii v b w) (simp_all add: Let_def split_def)

lemma copy_loop_inv: "be_inv (fst (copy_loop lib args addrs b w)) = be_inv b"
  by (induction addrs arbitrary: b w) (simp_all add: split_def)

lemma delete_loop_inv: "be_inv (fst (snd (delete_loop lib key addrs best b w))) = be_inv b"
  by (induction addrs arbitrary: best b w) (simp_all add: Let_def split_def)

lemmas loops_keep_inv = read_loop_inv write_loop_inv copy_loop_inv delete_loop_inv

lemma length_fold_update: "length (fold (\<lambda>i xs. xs[i := f i]) is xs) = length xs"
  by (induction "is" arbitrary: xs) auto

lemma fold_update_upt: "k \<le> length xs \<Longrightarrow> fold (\<lambda>i xs. xs[i := f i]) [0..<k] xs = map f [0..<k] @ drop k xs"
proof (induction k)
  case (Suc k)
  then have "drop k xs = xs ! k # drop (Suc k) xs" by (simp add: Cons_nth_drop_Suc)
  with Suc show ?case by (simp add: list_update_append)
qed simp

lemma be_inv_operations:
  assumes "be_inv b"
  shows "be_inv (update_config E config b)"
    and "be_inv (fst (snd (snd (snd (read_data E t key data cas b w)))))"
    and "be_inv (fst (snd (write_data E t ts operation key data cas expiry b w)))"
    and "be_inv (fst (snd (delete_data E key b w)))"
proof -
  note upd = be_inv_update [OF _ be_vbucket_for_key_less]
  show "be_inv (update_config E config b)"
    using assms
    by (auto simp: update_config_def new_view_def Let_def be_inv_def failed_vbuckets_def length_fold_update
        split: option.splits)
  show "be_inv (fst (snd (snd (snd (read_data E t key data cas b w)))))"
    using assms by (simp add: read_data_def Let_def split_def loops_keep_inv upd)
  show "be_inv (fst (snd (write_data E t ts operation key data cas expiry b w)))"
    using assms by (simp add: write_data_def finish_write_def Let_def split_def loops_keep_inv upd)
  show "be_inv (fst (snd (delete_data E key b w)))"
    using assms by (simp add: delete_data_def loops_keep_inv)
qed

section \<open>Reads\<close>

text \<open>
  Replicas that answer a read of \<open>key\<close> the same way each time: \<open>res\<close> gives the return code
  of each and the record it holds.
\<close>

definition steady_reads :: "'w libmemcached \<Rightarrow> AddrInfo set \<Rightarrow> bytes \<Rightarrow> (AddrInfo \<Rightarrow> memcached_return \<times> bytes \<times> u64) \<Rightarrow> bool" where
  "steady_reads lib A key res \<longleftrightarrow>
     (\<forall>a \<in> A. \<forall>data w. \<exists>w'. get_from_replica lib a key data w =
        (if lm_success lib (fst (res a)) then (fst (res a), fst (snd (res a)), snd (snd (res a)), w')
         else (fst (res a), data, 0, w')))"

text \<open>The documented meaning of the return codes: these are not successes.\<close>

definition codes_ok :: "'w libmemcached \<Rightarrow> bool" where
  "codes_ok lib \<longleftrightarrow>
     (\<forall>rc \<in> {MEMCACHED_ERROR, MEMCACHED_NOTFOUND, MEMCACHED_NOTSTORED, MEMCACHED_DATA_EXISTS,
        MEMCACHED_CONNECTION_FAILURE}. \<not> lm_success lib rc)"

lemma filter_all_or_less: "length (filter P xs) < length xs \<longleftrightarrow> (\<exists>x \<in> set xs. \<not> P x)"
proof
  show "\<exists>x \<in> set xs. \<not> P x" if "length (filter P xs) < length xs"
    using that by (metis filter_True less_irrefl)
qed (auto intro: length_filter_less)

section \<open>Writes and deletes\<close>

definition sent_all :: "sent_request \<Rightarrow> AddrInfo list \<Rightarrow> (AddrInfo \<times> sent_request) list" where
  "sent_all r addrs = map (\<lambda>a. (a, r)) addrs"

text \<open>
  The conditional writes as a trace of addresses and results: the replicas are tried in order,
  a sole one twice, until \<open>retries\<close> says that the result is final.
\<close>

definition tries :: "AddrInfo list \<Rightarrow> AddrInfo list" where
  "tries addrs = (if length addrs = 1 then addrs @ addrs else addrs)"

definition retries :: "'w libmemcached \<Rightarrow> AddrInfo list \<Rightarrow> memcached_return \<Rightarrow> bool" where
  "retries lib addrs rc \<longleftrightarrow> \<not> lm_success lib rc \<and> \<not> contention rc \<and>
     (length addrs = 1 \<longrightarrow> rc = MEMCACHED_CONNECTION_FAILURE)"

fun write_trace :: "'w libmemcached \<Rightarrow> write_cmd \<Rightarrow> (memcached_return \<Rightarrow> bool) \<Rightarrow> AddrInfo list \<Rightarrow> 'w \<Rightarrow>
    (AddrInfo \<times> memcached_return) list" where
  "write_trace lib cmd again [] w = []"
| "write_trace lib cmd again (addr # addrs) w =
     (let (rc, w) = lm_write lib addr cmd w
      in (addr, rc) # (if again rc then write_trace lib cmd again addrs w else []))"

lemma write_trace_Nil [simp]: "write_trace lib cmd again addrs w = [] \<longleftrightarrow> addrs = []"
  by (cases addrs) (simp_all add: split_def Let_def)

lemma length_tries: "attempts addrs = length (tries addrs)"
  by (simp add: attempts_def tries_def)

lemma nth_tries:
  assumes "ii < length (tries addrs)"
  shows "tries addrs ! ii = addrs ! (if length addrs = 1 \<and> ii = 1 then 0 else ii)"
  using assms by (auto simp: tries_def nth_append length_Suc_conv less_2_cases_iff split: if_splits)

text \<open>
  The GETs of a read in the same way, each with its result: return code, data and CAS value.
\<close>

definition asks_again :: "'w libmemcached \<Rightarrow> AddrInfo list \<Rightarrow> memcached_return \<Rightarrow> bool" where
  "asks_again lib addrs rc \<longleftrightarrow> \<not> lm_success lib rc \<and> (length addrs = 1 \<longrightarrow> rc = MEMCACHED_CONNECTION_FAILURE)"

fun read_trace :: "'w libmemcached \<Rightarrow> bytes \<Rightarrow> (memcached_return \<Rightarrow> bool) \<Rightarrow> AddrInfo list \<Rightarrow> bytes \<Rightarrow> 'w \<Rightarrow>
    (AddrInfo \<times> memcached_return \<times> bytes \<times> u64) list" where
  "read_trace lib key again [] data w = []"
| "read_trace lib key again (addr # addrs) data w =
     (let (rc, data, cas, w) = get_from_replica lib addr key data w
      in (addr, rc, data, cas) # (if again rc then read_trace lib key again addrs data w else []))"

abbreviation rc_of :: "AddrInfo \<times> memcached_return \<times> bytes \<times> u64 \<Rightarrow> memcached_return" where
  "rc_of x \<equiv> fst (snd x)"

lemma read_trace_Nil [simp]: "read_trace lib key again addrs data w = [] \<longleftrightarrow> addrs = []"
  by (cases addrs) (simp_all add: split_def Let_def)

lemma read_trace_prefix:
  assumes "tr = read_trace lib key again addrs data w"
  shows "map fst tr = take (length tr) addrs" "x \<in> set (butlast tr) \<Longrightarrow> again (rc_of x)"
    "tr \<noteq> [] \<Longrightarrow> again (rc_of (last tr)) \<Longrightarrow> length tr = length addrs"
  using assms
  by (induction addrs arbitrary: tr data w) (auto simp: split_def Let_def split: if_splits)

text \<open>A GET that fails leaves the data as they are, and the CAS value 0.\<close>

lemma get_from_replica_fails:
  "get_from_replica lib a key data w = (rc, data', cas, w') \<Longrightarrow> \<not> lm_success lib rc \<Longrightarrow> data' = data \<and> cas = 0"
  by (auto simp: get_from_replica_def Let_def split: prod.splits if_splits)

lemma read_trace_fails:
  assumes "tr = read_trace lib key again addrs data w" "\<And>rc. again rc \<Longrightarrow> \<not> lm_success lib rc" "x \<in> set tr"
    "\<not> lm_success lib (rc_of x)"
  shows "snd (snd x) = (data, 0)"
  using assms(1,3,4)
proof (induction addrs arbitrary: tr data w)
  case (Cons a addrs)
  obtain rc d c w1 where get: "get_from_replica lib a key data w = (rc, d, c, w1)" by (metis prod_cases4)
  with Cons.prems(1) have tr: "tr = (a, rc, d, c) # (if again rc then read_trace lib key again addrs d w1 else [])" by simp
  from tr Cons.prems(2) consider "x = (a, rc, d, c)" | "again rc" "x \<in> set (read_trace lib key again addrs d w1)"
    by (auto split: if_splits)
  then show ?case
  proof cases
    case 1
    with Cons.prems(3) get_from_replica_fails [OF get] show ?thesis by simp
  next
    case 2
    then have "d = data" using get_from_replica_fails [OF get] assms(2) by blast
    with 2 Cons.IH [OF refl 2(2) Cons.prems(3)] show ?thesis by simp
  qed
qed simp

lemma read_loop_step:
  assumes "\<not> (length addrs = 1 \<and> ii = 1 \<and> r_rc v \<noteq> MEMCACHED_CONNECTION_FAILURE)"
    and "idx = (if length addrs = 1 \<and> ii = 1 then 0 else ii)"
    and "get_from_replica lib (addrs ! idx) key (r_data v) w = (rc, data, cas, w')"
    and "v1 = v\<lparr>r_rc := rc, r_data := data, r_cas := cas\<rparr>" "b1 = sent (addrs ! idx) (SentGet key) b"
  shows "read_loop lib addrs key (Suc n) ii v b w =
    (if lm_success lib rc then (v1, b1, w')
     else if rc = MEMCACHED_NOTFOUND then read_loop lib addrs key n (ii + 1) (v1\<lparr>r_active_not_found := True\<rparr>) b1 w'
     else read_loop lib addrs key n (ii + 1) (v1\<lparr>r_failed_replicas := r_failed_replicas v + 1\<rparr>) b1 w')"
  unfolding assms(4,5)
  by (simp only: read_loop.simps(2) if_not_P [OF assms(1)] assms(2) [symmetric] Let_def assms(3) prod.case) simp

text \<open>What the loop leaves after the results \<open>tr\<close>.\<close>

definition read_result :: "'w libmemcached \<Rightarrow> (AddrInfo \<times> memcached_return \<times> bytes \<times> u64) list \<Rightarrow> read_vars \<Rightarrow> read_vars" where
  "read_result lib tr v =
     (if tr = [] then v
      else \<lparr>r_rc = rc_of (last tr), r_data = fst (snd (snd (last tr))), r_cas = snd (snd (snd (last tr))),
        r_active_not_found = (r_active_not_found v \<or> (\<exists>x \<in> set tr. rc_of x = MEMCACHED_NOTFOUND)),
        r_failed_replicas = r_failed_replicas v +
          length (filter (\<lambda>x. \<not> lm_success lib (rc_of x) \<and> rc_of x \<noteq> MEMCACHED_NOTFOUND) tr)\<rparr>)"

lemma read_loop_trace:
  assumes "codes_ok lib" "n + ii = length (tries addrs)"
    and "tr = (if length addrs = 1 \<and> ii = 1 \<and> r_rc v \<noteq> MEMCACHED_CONNECTION_FAILURE then []
               else read_trace lib key (asks_again lib addrs) (drop ii (tries addrs)) (r_data v) w)"
    and "read_loop lib addrs key n ii v b w = (v', b', w')"
  shows "v' = read_result lib tr v \<and> b' = b\<lparr>be_sent := be_sent b @ sent_all (SentGet key) (map fst tr)\<rparr>"
  using assms(2-4)
proof (induction n arbitrary: ii v b w tr)
  case 0
  then show ?case by (auto simp: sent_all_def read_result_def)
next
  case (Suc n)
  then have ii: "ii < length (tries addrs)" by simp
  define idx where "idx = (if length addrs = 1 \<and> ii = 1 then 0 else ii)"
  have drop: "drop ii (tries addrs) = addrs ! idx # drop (Suc ii) (tries addrs)"
    using ii by (simp add: nth_tries idx_def Cons_nth_drop_Suc [symmetric])
  have nf: "\<not> lm_success lib MEMCACHED_NOTFOUND" using assms(1) by (simp add: codes_ok_def)
  show ?case
  proof (cases "length addrs = 1 \<and> ii = 1 \<and> r_rc v \<noteq> MEMCACHED_CONNECTION_FAILURE")
    case True
    with Suc.prems show ?thesis by (auto simp: sent_all_def read_result_def)
  next
    case go: False
    obtain rc d c w1 where get: "get_from_replica lib (addrs ! idx) key (r_data v) w = (rc, d, c, w1)" by (metis prod_cases4)
    define tr1 where "tr1 = (if asks_again lib addrs rc
      then read_trace lib key (asks_again lib addrs) (drop (Suc ii) (tries addrs)) d w1 else [])"
    have tr: "tr = (addrs ! idx, rc, d, c) # tr1"
      using Suc.prems(2) go by (simp only: if_False drop) (simp add: get tr1_def)
    note loop = Suc.prems(3) [unfolded read_loop_step [OF go idx_def get refl refl]]
    show ?thesis
    proof (cases "lm_success lib rc")
      case True
      then have "tr1 = []" by (simp add: tr1_def asks_again_def)
      with tr loop True nf show ?thesis by (cases v) (auto simp: sent_all_def sent_def read_result_def)
    next
      case False
      define v1 where "v1 = (if rc = MEMCACHED_NOTFOUND then v\<lparr>r_rc := rc, r_data := d, r_cas := c, r_active_not_found := True\<rparr>
        else v\<lparr>r_rc := rc, r_data := d, r_cas := c, r_failed_replicas := r_failed_replicas v + 1\<rparr>)"
      have rest: "read_loop lib addrs key n (ii + 1) v1 (sent (addrs ! idx) (SentGet key) b) w1 = (v', b', w')"
        using loop False by (simp add: v1_def split: if_splits)
      have v1: "r_rc v1 = rc" "r_data v1 = d" by (simp_all add: v1_def)
      have stop: "tr1 = (if length addrs = 1 \<and> ii + 1 = 1 \<and> r_rc v1 \<noteq> MEMCACHED_CONNECTION_FAILURE then []
          else read_trace lib key (asks_again lib addrs) (drop (ii + 1) (tries addrs)) (r_data v1) w1)"
        using False ii by (auto simp: tr1_def v1 asks_again_def tries_def)
      have "n + (ii + 1) = length (tries addrs)" using Suc.prems(1) by simp
      from Suc.IH [OF this stop rest] tr False nf show ?thesis
        by (cases "tr1 = []") (auto simp: sent_all_def sent_def read_result_def v1_def)
    qed
  qed
qed

lemma write_loop_step:
  assumes "\<not> (length addrs = 1 \<and> ii = 1 \<and> wv_rc v \<noteq> MEMCACHED_CONNECTION_FAILURE)"
    and "idx = (if length addrs = 1 \<and> ii = 1 then 0 else ii)" "lm_write lib (addrs ! idx) cmd w = (rc, w')"
  shows "write_loop lib addrs cmd (Suc n) ii v b w =
    (if lm_success lib rc then (v\<lparr>wv_rc := rc, wv_replica_idx := idx\<rparr>, sent (addrs ! idx) (SentWrite cmd) b, w')
     else if contention rc
     then (v\<lparr>wv_rc := rc, wv_replica_idx := idx, wv_status := libmemcached_result_to_memcache_status rc\<rparr>,
           sent (addrs ! idx) (SentWrite cmd) b, w')
     else write_loop lib addrs cmd n (ii + 1) (v\<lparr>wv_rc := rc, wv_replica_idx := idx\<rparr>)
            (sent (addrs ! idx) (SentWrite cmd) b) w')"
  by (simp only: write_loop.simps(2) if_not_P [OF assms(1)] assms(2) [symmetric] Let_def assms(3) prod.case)

lemma write_loop_trace:
  assumes "n + ii = length (tries addrs)"
    and "tr = (if length addrs = 1 \<and> ii = 1 \<and> wv_rc v \<noteq> MEMCACHED_CONNECTION_FAILURE then []
               else write_trace lib cmd (retries lib addrs) (drop ii (tries addrs)) w)"
    and "write_loop lib addrs cmd n ii v b w = (v', b', w')"
  shows "be_sent b' = be_sent b @ sent_all (SentWrite cmd) (map fst tr) \<and>
    wv_rc v' = (if tr = [] then wv_rc v else snd (last tr)) \<and>
    wv_status v' = (if tr \<noteq> [] \<and> \<not> lm_success lib (wv_rc v') \<and> contention (wv_rc v')
                    then libmemcached_result_to_memcache_status (wv_rc v') else wv_status v) \<and>
    wv_replica_idx v' = (if tr = [] then wv_replica_idx v else if length addrs = 1 then 0 else ii + length tr - 1)"
  using assms
proof (induction n arbitrary: ii v b w tr)
  case 0
  then show ?case by (auto simp: sent_all_def)
next
  case (Suc n)
  then have ii: "ii < length (tries addrs)" by simp
  define idx where "idx = (if length addrs = 1 \<and> ii = 1 then 0 else ii)"
  have drop: "drop ii (tries addrs) = addrs ! idx # drop (Suc ii) (tries addrs)"
    using ii by (simp add: nth_tries idx_def Cons_nth_drop_Suc [symmetric])
  have sole: "idx = 0" if "length addrs = 1" using ii that by (auto simp: idx_def tries_def)
  have seq: "idx = ii" if "length addrs \<noteq> 1" using that by (simp add: idx_def)
  show ?case
  proof (cases "length addrs = 1 \<and> ii = 1 \<and> wv_rc v \<noteq> MEMCACHED_CONNECTION_FAILURE")
    case True
    with Suc.prems show ?thesis by (auto simp: sent_all_def)
  next
    case go: False
    obtain rc w1 where wr: "lm_write lib (addrs ! idx) cmd w = (rc, w1)" by fastforce
    have tr: "tr = (addrs ! idx, rc) #
        (if retries lib addrs rc then write_trace lib cmd (retries lib addrs) (drop (Suc ii) (tries addrs)) w1 else [])"
      using Suc.prems(2) go by (simp only: if_False drop) (simp add: wr)
    let ?b = "sent (addrs ! idx) (SentWrite cmd) b" and ?v = "v\<lparr>wv_rc := rc, wv_replica_idx := idx\<rparr>"
    note loop = Suc.prems(3) [unfolded write_loop_step [OF go idx_def wr]]
    show ?thesis
    proof (cases "lm_success lib rc \<or> contention rc")
      case True
      with tr have "tr = [(addrs ! idx, rc)]" by (auto simp: retries_def)
      with loop True sole seq show ?thesis by (auto simp: sent_all_def sent_def split: if_splits)
    next
      case False
      then have rest: "write_loop lib addrs cmd n (ii + 1) ?v ?b w1 = (v', b', w')" using loop by simp
      define tr1 where "tr1 = (if retries lib addrs rc
        then write_trace lib cmd (retries lib addrs) (drop (Suc ii) (tries addrs)) w1 else [])"
      have stop: "tr1 = (if length addrs = 1 \<and> ii + 1 = 1 \<and> wv_rc ?v \<noteq> MEMCACHED_CONNECTION_FAILURE then []
          else write_trace lib cmd (retries lib addrs) (drop (ii + 1) (tries addrs)) w1)"
        using False ii by (auto simp: tr1_def retries_def tries_def)
      have "n + (ii + 1) = length (tries addrs)" using Suc.prems(1) by simp
      note ih = Suc.IH [OF this stop rest]
      have tr': "tr = (addrs ! idx, rc) # tr1" using tr by (simp add: tr1_def)
      show ?thesis
        using ih tr' False sole seq by (cases "tr1 = []") (auto simp: sent_all_def sent_def)
    qed
  qed
qed

lemma copy_loop_sent:
  "be_sent (fst (copy_loop lib args addrs b w)) = be_sent b @ sent_all (SentWrite (SetVb True args)) addrs"
  by (induction addrs arbitrary: b w) (simp_all add: split_def sent_def sent_all_def)

lemma update_inform_sent [simp]:
  "be_sent (inform E ok b) = be_sent b" "be_sent (update_vbucket_comm_state E t vb st b) = be_sent b"
  by (simp_all add: inform_def update_vbucket_comm_state_def set_comm_state_def Let_def)

lemma no_contention_status: "\<not> contention rc \<Longrightarrow> libmemcached_result_to_memcache_status rc = TEMPORARY_FAILURE"
  by (cases rc) (auto simp: contention_def)

text \<open>The return codes of the deletes, in order.\<close>

fun delete_results :: "'w libmemcached \<Rightarrow> bytes \<Rightarrow> AddrInfo list \<Rightarrow> 'w \<Rightarrow> memcached_return list" where
  "delete_results lib key [] w = []"
| "delete_results lib key (addr # addrs) w =
     (let (rc, w) = lm_delete lib addr key w in rc # delete_results lib key addrs w)"

lemma result_status_error: "libmemcached_result_to_memcache_status rc \<noteq> NO_ERROR"
  by (cases rc) auto

lemma delete_results_Nil [simp]: "delete_results lib key addrs w = [] \<longleftrightarrow> addrs = []"
  by (cases addrs) (simp_all add: split_def Let_def)

lemma delete_loop_status:
  "fst (delete_loop lib key addrs best b w) =
     (if best = NO_ERROR \<or> (\<exists>rc \<in> set (delete_results lib key addrs w). lm_success lib rc) then NO_ERROR
      else if addrs = [] then best
      else libmemcached_result_to_memcache_status (last (delete_results lib key addrs w)))"
proof (induction addrs arbitrary: best b w)
  case (Cons addr addrs)
  obtain rc w1 where "lm_delete lib addr key w = (rc, w1)" by fastforce
  with Cons.IH show ?case
    by (auto simp: result_status_error)
qed simp

lemma delete_loop_sent:
  "be_sent (fst (snd (delete_loop lib key addrs best b w))) = be_sent b @ sent_all (SentDelete key) addrs"
  by (induction addrs arbitrary: best b w) (simp_all add: Let_def split_def sent_def sent_all_def)

section \<open>Properties\<close>

text \<open>
  A cluster for the witnesses: servers named by one letter hold nothing and cannot be written,
  the others hold a record; the port of a server is the length of its name.
\<close>

definition wit_lib :: "unit libmemcached" where
  "wit_lib =
     \<lparr>lm_success = (\<lambda>rc. rc = MEMCACHED_SUCCESS),
      lm_mget = \<lambda>a key w. (if ai_port a = 1 then MEMCACHED_NOTFOUND else MEMCACHED_SUCCESS, w),
      lm_fetch_result = \<lambda>a w. (MEMCACHED_SUCCESS, [5], 9, w),
      lm_write = \<lambda>a cmd w. (if ai_port a = 1 then MEMCACHED_ERROR else MEMCACHED_SUCCESS, w),
      lm_delete = \<lambda>a key w. (if ai_port a = 1 then MEMCACHED_NOTFOUND else MEMCACHED_SUCCESS, w)\<rparr>"

definition wit_backend_env :: "(unit, store_view) backend_env" where
  "wit_backend_env =
     \<lparr>bn_lib = wit_lib, bn_view = \<lambda>_ _ c. c, bn_split_host_port = \<lambda>s. Some (s, int (length s)),
      bn_parse_ip_target = Some, bn_hash = \<lambda>_. 0, bn_monitor = True, bn_alarm = True\<rparr>"

definition wit_store_view :: store_view where
  "wit_store_view =
     \<lparr>sv_servers = [''a'', ''bb'', ''ccc''], sv_read_replicas = \<lambda>_. [''a'', ''bb'', ''ccc''],
      sv_write_replicas = \<lambda>_. [''a'', ''bb'', ''ccc'']\<rparr>"

definition wit_backend :: backend where
  "wit_backend = new_MemcachedBackend
     \<lparr>be_read_replicas := replicate vbuckets [''a'', ''bb'', ''ccc''],
      be_write_replicas := replicate vbuckets [''a'', ''bb'', ''ccc'']\<rparr>"

definition wit_addrs :: "AddrInfo list" where
  "wit_addrs = [\<lparr>ai_address = ''a'', ai_port = 1\<rparr>, \<lparr>ai_address = ''bb'', ai_port = 2\<rparr>, \<lparr>ai_address = ''ccc'', ai_port = 3\<rparr>]"

lemma wit_replicas: "get_replica_addresses wit_backend_env wit_backend (be_vbucket_for_key wit_backend_env key) rw = wit_addrs"
  using be_vbucket_for_key_less [of wit_backend_env key]
  by (simp add: get_replica_addresses_def wit_backend_def)
    (simp add: wit_backend_env_def List.map_filter_simps wit_addrs_def)

text \<open>
  C26: The count of failed vbuckets is the number of vbuckets whose last read or write reached no
  replica, after any configuration update, read, write or delete; it never wraps.
\<close>

theorem vbucket_state_invariant:
  assumes "be_inv b"
  shows "be_inv (update_config E config b) \<and>
    be_inv (fst (snd (snd (snd (read_data E t key data cas b w))))) \<and>
    be_inv (fst (snd (write_data E t ts operation key data cas expiry b w))) \<and>
    be_inv (fst (snd (delete_data E key b w)))"
  by (intro conjI be_inv_operations [OF assms])

theorem vbucket_state_invariant_witness:
  "be_inv new_MemcachedBackend \<and>
   be_inv (fst (snd (write_data wit_backend_env (5, 5) (1, 0) SET [1] [2] 0 0 new_MemcachedBackend ())))"
  using vbucket_state_invariant [OF be_inv_new, of wit_backend_env None "(5, 5)" "[1]" "[2]" 0 "()" "(1, 0)" SET 0]
    be_inv_new by blast

text \<open>
  A run of updates, each with the two readings of the clock, the vbucket and its state.
\<close>

type_synonym comm_update = "(u64 \<times> u64) \<times> nat \<times> CommState"

definition comm_updates :: "('w, 'c) backend_env \<Rightarrow> comm_update list \<Rightarrow> backend \<Rightarrow> backend" where
  "comm_updates E us b = fold (\<lambda>(t, vb, st). update_vbucket_comm_state E t vb st) us b"

lemma comm_updates_simps [simp]:
  "comm_updates E [] b = b"
  "comm_updates E ((t, vb, st) # us) b = comm_updates E us (update_vbucket_comm_state E t vb st b)"
  "comm_updates E (us @ us') b = comm_updates E us' (comm_updates E us b)"
  by (simp_all add: comm_updates_def)

text \<open>The clock does not run backwards within an update, and is not within the period of its end.\<close>

definition update_ok :: "comm_update \<Rightarrow> bool" where
  "update_ok u \<longleftrightarrow> (case u of (t, vb, st) \<Rightarrow> vb < vbuckets \<and> fst t \<le> snd t \<and> unat (snd t) + 30000 < 2 ^ 64)"

lemma be_inv_updates: "list_all update_ok us \<Longrightarrow> be_inv b \<Longrightarrow> be_inv (comm_updates E us b)"
proof (induction us arbitrary: b)
  case (Cons u us)
  obtain t vb st where u: "u = (t, vb, st)" by (cases u)
  with Cons.prems have "be_inv (update_vbucket_comm_state E t vb st b)" by (intro be_inv_update) (auto simp: update_ok_def)
  with Cons u show ?case by simp
qed simp

lemma update_effect:
  assumes "be_inv b" "vb < vbuckets" "bn_alarm E" "b' = update_vbucket_comm_state E t vb st b"
  shows "be_vbucket_comm_state b' = (be_vbucket_comm_state b)[vb := st]"
    and "be_alarm_calls b' = be_alarm_calls b @
      (if be_next_vbucket_alarm_update b < fst t
       then [if Comm_FAILED \<in> set (be_vbucket_comm_state b') then Alarm_set else Alarm_clear] else [])"
    and "be_next_vbucket_alarm_update b' =
      (if be_next_vbucket_alarm_update b < fst t then snd t + 30000 else be_next_vbucket_alarm_update b)"
proof -
  let ?b = "set_comm_state vb st b"
  have inv: "be_inv ?b" by (rule be_inv_set_comm_state [OF assms(1,2)])
  then have "unat (be_vbucket_comm_fail_count ?b) = 0 \<longleftrightarrow> Comm_FAILED \<notin> set (be_vbucket_comm_state ?b)"
    by (simp add: be_inv_def failed_vbuckets_def)
  then have count: "be_vbucket_comm_fail_count ?b = 0 \<longleftrightarrow> Comm_FAILED \<notin> set (be_vbucket_comm_state ?b)"
    by (simp only: unat_eq_0)
  have step: "be_alarm_calls ?b = be_alarm_calls b"
      "be_next_vbucket_alarm_update ?b = be_next_vbucket_alarm_update b"
      "be_vbucket_comm_state ?b = (be_vbucket_comm_state b)[vb := st]"
    using assms(1,2) by (auto simp: set_comm_state_def be_inv_def Let_def list_update_id [symmetric])
  show "be_vbucket_comm_state b' = (be_vbucket_comm_state b)[vb := st]"
      "be_next_vbucket_alarm_update b' =
        (if be_next_vbucket_alarm_update b < fst t then snd t + 30000 else be_next_vbucket_alarm_update b)"
    unfolding assms(4) using assms(3) step by (simp_all add: update_vbucket_comm_state_def update_period_ms_def Let_def)
  show "be_alarm_calls b' = be_alarm_calls b @
      (if be_next_vbucket_alarm_update b < fst t
       then [if Comm_FAILED \<in> set (be_vbucket_comm_state b') then Alarm_set else Alarm_clear] else [])"
    unfolding assms(4) using assms(3) step count by (simp add: update_vbucket_comm_state_def Let_def)
qed

text \<open>The time of the next call only moves on.\<close>

lemma next_update_grows:
  assumes "list_all update_ok us" "be_inv b" "bn_alarm E"
  shows "be_next_vbucket_alarm_update b \<le> be_next_vbucket_alarm_update (comm_updates E us b)"
  using assms(1,2)
proof (induction us arbitrary: b)
  case (Cons u us)
  obtain t vb st where u: "u = (t, vb, st)" by (cases u)
  let ?b = "update_vbucket_comm_state E t vb st b"
  have ok: "vb < vbuckets" "fst t \<le> snd t" "unat (snd t) + 30000 < 2 ^ 64" using Cons.prems(1) u by (auto simp: update_ok_def)
  then have "snd t \<le> snd t + 30000" by (simp add: word_le_nat_alt unat_word_ariths)
  then have "be_next_vbucket_alarm_update b \<le> be_next_vbucket_alarm_update ?b"
    using update_effect(3) [OF Cons.prems(2) ok(1) assms(3) refl, of t st] ok(2) by auto
  moreover have "be_inv ?b" by (rule be_inv_update [OF Cons.prems(2) ok(1)])
  with Cons.IH [of ?b] Cons.prems(1)
  have "be_next_vbucket_alarm_update ?b \<le> be_next_vbucket_alarm_update (comm_updates E us ?b)" by simp
  ultimately show ?case using u by simp
qed simp

text \<open>
  C31: After any run of updates, an update records the state of its vbucket and of no other. It
  calls the alarm exactly when the time of the next call has passed, and then raises it if some
  vbucket has failed and clears it otherwise; else it leaves the alarm and the time of the next
  call alone. So two calls are more than the update period of 30 seconds apart, whatever updates
  come between them.
\<close>

theorem alarm_follows_vbuckets:
  assumes "be_inv b0" "bn_alarm E" "list_all update_ok us" "vb < vbuckets"
    and "b = comm_updates E us b0" "b' = update_vbucket_comm_state E t vb st b"
  shows "be_vbucket_comm_state b' = (be_vbucket_comm_state b)[vb := st] \<and>
    be_alarm_calls b' = be_alarm_calls b @
      (if be_next_vbucket_alarm_update b < fst t
       then [if Comm_FAILED \<in> set (be_vbucket_comm_state b') then Alarm_set else Alarm_clear] else []) \<and>
    be_next_vbucket_alarm_update b' =
      (if be_next_vbucket_alarm_update b < fst t then snd t + 30000 else be_next_vbucket_alarm_update b) \<and>
    (\<forall>xs t1 vb1 st1 ys. us = xs @ (t1, vb1, st1) # ys \<and>
       be_alarm_calls (comm_updates E (xs @ [(t1, vb1, st1)]) b0) \<noteq> be_alarm_calls (comm_updates E xs b0) \<and>
       be_alarm_calls b' \<noteq> be_alarm_calls b \<longrightarrow> unat (snd t1) + 30000 < unat (fst t))"
proof -
  have inv: "be_inv b" unfolding assms(5) by (rule be_inv_updates [OF assms(3,1)])
  note now = update_effect [OF inv assms(4,2,6)]
  have "unat (snd t1) + 30000 < unat (fst t)"
    if us: "us = xs @ (t1, vb1, st1) # ys" and calls: "be_alarm_calls b' \<noteq> be_alarm_calls b"
      "be_alarm_calls (comm_updates E (xs @ [(t1, vb1, st1)]) b0) \<noteq> be_alarm_calls (comm_updates E xs b0)"
    for xs t1 vb1 st1 ys
  proof -
    let ?b1 = "comm_updates E xs b0"
    have ok: "list_all update_ok xs" "vb1 < vbuckets" "unat (snd t1) + 30000 < 2 ^ 64" "list_all update_ok ys"
      using assms(3) us by (auto simp: update_ok_def)
    note then_inv = be_inv_updates [OF ok(1) assms(1), of E]
    let ?b2 = "update_vbucket_comm_state E t1 vb1 st1 ?b1"
    have "be_next_vbucket_alarm_update ?b2 = snd t1 + 30000"
      using update_effect(2,3) [OF then_inv ok(2) assms(2) refl, of t1 st1] calls(2) by (auto split: if_splits)
    moreover have "be_next_vbucket_alarm_update ?b2 \<le> be_next_vbucket_alarm_update b"
      unfolding assms(5) us using next_update_grows [OF ok(4) be_inv_update [OF then_inv ok(2)] assms(2)] by simp
    moreover have "be_next_vbucket_alarm_update b < fst t" using now(2) calls(1) by (auto split: if_splits)
    ultimately have "snd t1 + 30000 < fst t" by simp
    then show ?thesis using ok(3) by (simp add: word_less_nat_alt unat_word_ariths)
  qed
  with now show ?thesis by auto
qed

theorem alarm_follows_vbuckets_witness:
  "be_alarm_calls (update_vbucket_comm_state wit_backend_env (7, 8) 4 Comm_OK
     (comm_updates wit_backend_env [((5, 6), 3, Comm_FAILED)] new_MemcachedBackend)) =
   be_alarm_calls (comm_updates wit_backend_env [((5, 6), 3, Comm_FAILED)] new_MemcachedBackend)"
proof -
  let ?us = "[((5, 6), 3, Comm_FAILED)] :: comm_update list"
  have "bn_alarm wit_backend_env" "list_all update_ok ?us" "4 < vbuckets"
    by (simp_all add: wit_backend_env_def update_ok_def vbuckets_def)
  from alarm_follows_vbuckets [OF be_inv_new this refl refl, of "(7, 8)" Comm_OK] have
    "be_alarm_calls (comm_updates wit_backend_env ([] @ ?us) new_MemcachedBackend) \<noteq> be_alarm_calls new_MemcachedBackend \<Longrightarrow>
      ?thesis"
    by fastforce
  moreover have "be_alarm_calls (comm_updates wit_backend_env ([] @ ?us) new_MemcachedBackend) \<noteq> be_alarm_calls new_MemcachedBackend"
    by (simp add: update_vbucket_comm_state_def wit_backend_env_def set_comm_state_def new_MemcachedBackend_def Let_def)
  ultimately show ?thesis by blast
qed

text \<open>The number of failed replicas against the number of replicas, after a read without success.\<close>

lemma failed_replicas_less:
  assumes "tr = read_trace lib key (asks_again lib addrs) (tries addrs) data w" "tr \<noteq> []"
    and "\<not> lm_success lib (rc_of (last tr))"
  shows "length (filter (\<lambda>x. \<not> lm_success lib (rc_of x) \<and> rc_of x \<noteq> MEMCACHED_NOTFOUND) tr) < length addrs \<longleftrightarrow>
    (\<exists>x \<in> set tr. rc_of x = MEMCACHED_NOTFOUND) \<and> \<not> (length addrs = 1 \<and> length tr = 2)"
proof -
  note prefix = read_trace_prefix [OF assms(1)]
  have fails: "\<not> lm_success lib (rc_of x)" if "x \<in> set tr" for x
    using that assms(2,3) prefix(2) [of x] by (cases tr rule: rev_cases) (auto simp: asks_again_def)
  then have eq: "filter (\<lambda>x. \<not> lm_success lib (rc_of x) \<and> rc_of x \<noteq> MEMCACHED_NOTFOUND) tr =
      filter (\<lambda>x. rc_of x \<noteq> MEMCACHED_NOTFOUND) tr"
    by (intro filter_cong) auto
  show ?thesis
  proof (cases "length addrs = 1")
    case True
    then obtain a where a: "addrs = [a]" by (auto simp: length_Suc_conv)
    then have "length tr \<le> 2" using arg_cong [OF prefix(1), of length] by (simp add: tries_def)
    with assms(2) consider x where "tr = [x]" | x y where "tr = [x, y]"
      by (cases tr; cases "tl tr") auto
    then show ?thesis
    proof cases
      case (2 x y)
      then have "rc_of x = MEMCACHED_CONNECTION_FAILURE" using prefix(2) [of x] True by (simp add: asks_again_def)
      with 2 True eq show ?thesis by simp
    qed (use True eq in auto)
  next
    case False
    then have "length tr = length addrs"
      using prefix(3) [OF assms(2)] assms(3) by (simp add: asks_again_def tries_def)
    with False eq show ?thesis using filter_all_or_less [of "\<lambda>x. rc_of x \<noteq> MEMCACHED_NOTFOUND" tr] by auto
  qed
qed

lemma read_data_trace:
  assumes "codes_ok (bn_lib E)"
    and "addrs = get_replica_addresses E b (be_vbucket_for_key E key) READ"
    and "tr = read_trace (bn_lib E) key (asks_again (bn_lib E) addrs) (tries addrs) data w"
    and "read_data E t key data cas b w = (status, data', cas', b', w')"
  shows "status = (if tr \<noteq> [] \<and> lm_success (bn_lib E) (rc_of (last tr)) then NO_ERROR
      else if (\<exists>x \<in> set tr. rc_of x = MEMCACHED_NOTFOUND) \<and> \<not> (length addrs = 1 \<and> length tr = 2) then KEY_NOT_FOUND
      else TEMPORARY_FAILURE)"
    and "(data', cas') =
      (if tr = [] then (data, cas)
       else if status \<noteq> NO_ERROR then (data, 0)
       else (fst (snd (snd (last tr))),
             if \<exists>x \<in> set tr. rc_of x = MEMCACHED_NOTFOUND then 0 else snd (snd (snd (last tr)))))"
    and "b' = inform E (status \<noteq> TEMPORARY_FAILURE)
      (update_vbucket_comm_state E t (be_vbucket_for_key E key)
         (if status = TEMPORARY_FAILURE then Comm_FAILED else Comm_OK)
         (b\<lparr>be_sent := be_sent b @ sent_all (SentGet key) (map fst tr)\<rparr>))"
proof -
  let ?lib = "bn_lib E" and ?v0 = "\<lparr>r_rc = MEMCACHED_ERROR, r_data = data, r_cas = cas, r_active_not_found = False,
    r_failed_replicas = 0\<rparr>"
  obtain v b1 w1 where loop: "read_loop ?lib addrs key (attempts addrs) 0 ?v0 b w = (v, b1, w1)" by (metis prod_cases3)
  have v: "v = read_result ?lib tr ?v0" "b1 = b\<lparr>be_sent := be_sent b @ sent_all (SentGet key) (map fst tr)\<rparr>"
    using read_loop_trace [OF assms(1) _ _ loop, of tr] assms(3) by (simp_all add: length_tries)
  have err: "\<not> lm_success ?lib MEMCACHED_ERROR" using assms(1) by (simp add: codes_ok_def)
  have empty: "tr = [] \<longleftrightarrow> addrs = []" using assms(3) by (auto simp: tries_def)
  have last: "snd (snd (last tr)) = (data, 0)" if "tr \<noteq> []" "\<not> lm_success ?lib (rc_of (last tr))"
    using read_trace_fails [OF assms(3) _ last_in_set [OF that(1)] that(2)] by (auto simp: asks_again_def)
  note res = assms(4) [unfolded read_data_def Let_def assms(2) [symmetric] loop prod.case]
  note less = failed_replicas_less [OF assms(3)]
  show "status = (if tr \<noteq> [] \<and> lm_success (bn_lib E) (rc_of (last tr)) then NO_ERROR
      else if (\<exists>x \<in> set tr. rc_of x = MEMCACHED_NOTFOUND) \<and> \<not> (length addrs = 1 \<and> length tr = 2) then KEY_NOT_FOUND
      else TEMPORARY_FAILURE)"
    using res v err empty less by (auto simp: read_result_def split: if_splits)
  show "(data', cas') =
      (if tr = [] then (data, cas)
       else if status \<noteq> NO_ERROR then (data, 0)
       else (fst (snd (snd (last tr))),
             if \<exists>x \<in> set tr. rc_of x = MEMCACHED_NOTFOUND then 0 else snd (snd (snd (last tr)))))"
    using res v err last by (auto simp: read_result_def split: if_splits)
  show "b' = inform E (status \<noteq> TEMPORARY_FAILURE)
      (update_vbucket_comm_state E t (be_vbucket_for_key E key)
         (if status = TEMPORARY_FAILURE then Comm_FAILED else Comm_OK)
         (b\<lparr>be_sent := be_sent b @ sent_all (SentGet key) (map fst tr)\<rparr>))"
    using res v by (auto split: if_splits)
qed

text \<open>The trace ends at the first replica that has the record, if all answer the same way each time.\<close>

lemma steady_trace:
  assumes "steady_reads lib (set (xs @ a # ys)) key res" "lm_success lib (fst (res a))" "\<not> again (fst (res a))"
    and "\<forall>x \<in> set xs. \<not> lm_success lib (fst (res x)) \<and> again (fst (res x))"
  shows "read_trace lib key again (xs @ a # ys) data w \<noteq> [] \<and> last (read_trace lib key again (xs @ a # ys) data w) = (a, res a)"
  using assms
proof (induction xs arbitrary: data w)
  case Nil
  then obtain w' where "get_from_replica lib a key data w = (fst (res a), fst (snd (res a)), snd (snd (res a)), w')"
    unfolding steady_reads_def by fastforce
  with Nil show ?case by (cases "res a") simp
next
  case (Cons x xs)
  then obtain w' where "get_from_replica lib x key data w = (fst (res x), data, 0, w')"
    unfolding steady_reads_def by fastforce
  moreover have "steady_reads lib (set (xs @ a # ys)) key res" using Cons.prems(1) by (simp add: steady_reads_def)
  ultimately show ?case using Cons by simp
qed

lemma read_data_steady:
  assumes "codes_ok (bn_lib E)"
    and "xs @ a # ys = get_replica_addresses E b (be_vbucket_for_key E key) READ"
    and "steady_reads (bn_lib E) (set (xs @ a # ys)) key res" "lm_success (bn_lib E) (fst (res a))"
    and "\<forall>x \<in> set xs. \<not> lm_success (bn_lib E) (fst (res x))"
    and "read_data E t key data cas b w = (status, data', cas', b', w')"
  shows "status = NO_ERROR" "data' = fst (snd (res a))"
proof -
  let ?addrs = "xs @ a # ys" and ?lib = "bn_lib E"
  define tr where "tr = read_trace ?lib key (asks_again ?lib ?addrs) (tries ?addrs) data w"
  define zs where "zs = (if length ?addrs = 1 then ys @ ?addrs else ys)"
  have zs: "tries ?addrs = xs @ a # zs" "set (xs @ a # zs) = set ?addrs" by (auto simp: tries_def zs_def)
  have "tr \<noteq> [] \<and> last tr = (a, res a)"
    unfolding tr_def zs(1) using assms(3-5) zs(2)
    by (intro steady_trace) (auto simp: asks_again_def)
  with read_data_trace(1,2) [OF assms(1,2) tr_def assms(6)] assms(4) show "status = NO_ERROR" "data' = fst (snd (res a))"
    by auto
qed

text \<open>
  C10: A read asks the replicas in order, and a sole one a second time after a lost connection,
  until one of them has the record, and none after that. It returns the record of that replica,
  with its CAS value unless an earlier one answered that it has none: then 0, so that a write
  based on the read is not refused there. Without such a replica the answer is that the key is
  not found if one of them said so, and a temporary failure otherwise, with one exception: a
  sole replica that says so only when it is asked again counts as failed. The vbucket is marked
  as failed, and the monitor told so, exactly when the answer is a temporary failure.
\<close>

theorem read_data_result:
  assumes "codes_ok (bn_lib E)"
    and "addrs = get_replica_addresses E b (be_vbucket_for_key E key) READ"
    and "tr = read_trace (bn_lib E) key (asks_again (bn_lib E) addrs) (tries addrs) data w"
    and "read_data E t key data cas b w = (status, data', cas', b', w')"
  shows "map fst tr = take (length tr) (tries addrs) \<and> (\<forall>x \<in> set (butlast tr). \<not> lm_success (bn_lib E) (rc_of x)) \<and>
    status = (if tr \<noteq> [] \<and> lm_success (bn_lib E) (rc_of (last tr)) then NO_ERROR
      else if (\<exists>x \<in> set tr. rc_of x = MEMCACHED_NOTFOUND) \<and> \<not> (length addrs = 1 \<and> length tr = 2) then KEY_NOT_FOUND
      else TEMPORARY_FAILURE) \<and>
    (data', cas') =
      (if tr = [] then (data, cas)
       else if status \<noteq> NO_ERROR then (data, 0)
       else (fst (snd (snd (last tr))),
             if \<exists>x \<in> set tr. rc_of x = MEMCACHED_NOTFOUND then 0 else snd (snd (snd (last tr))))) \<and>
    b' = inform E (status \<noteq> TEMPORARY_FAILURE)
      (update_vbucket_comm_state E t (be_vbucket_for_key E key)
         (if status = TEMPORARY_FAILURE then Comm_FAILED else Comm_OK)
         (b\<lparr>be_sent := be_sent b @ sent_all (SentGet key) (map fst tr)\<rparr>))"
  using read_trace_prefix(1,2) [OF assms(3)] read_data_trace [OF assms] by (auto simp: asks_again_def)

lemma wit_codes: "codes_ok wit_lib"
  by (simp add: codes_ok_def wit_lib_def)

lemma wit_read_trace:
  "read_trace wit_lib [1] (asks_again wit_lib wit_addrs) (tries wit_addrs) [] () =
     [(wit_addrs ! 0, MEMCACHED_NOTFOUND, [], 0), (wit_addrs ! 1, MEMCACHED_SUCCESS, [5], 9)]"
  by (simp add: wit_addrs_def tries_def get_from_replica_def wit_lib_def asks_again_def)

theorem read_data_result_witness:
  "fst (read_data wit_backend_env (5, 6) [1] [] 77 wit_backend ()) = NO_ERROR \<and>
   fst (snd (read_data wit_backend_env (5, 6) [1] [] 77 wit_backend ())) = [5] \<and>
   fst (snd (snd (read_data wit_backend_env (5, 6) [1] [] 77 wit_backend ()))) = 0"
proof -
  obtain status data' cas' b' w' where r:
    "read_data wit_backend_env (5, 6) [1] [] 77 wit_backend () = (status, data', cas', b', w')"
    by (metis prod_cases5)
  have lib: "bn_lib wit_backend_env = wit_lib" by (simp add: wit_backend_env_def)
  note h = read_data_result [OF wit_codes [folded lib] wit_replicas [symmetric] wit_read_trace [folded lib, symmetric] r]
  have "lm_success wit_lib MEMCACHED_SUCCESS" by (simp add: wit_lib_def)
  with h have "status = NO_ERROR" "(data', cas') = ([5], 0)" by (auto simp: lib)
  then show ?thesis by (simp add: r)
qed

text \<open>
  A sole replica whose connection was lost is asked a second time; when it then answers
  that it has no such record, the read reports a temporary failure and marks the vbucket as
  failed, although a replica has answered. The failed first attempt counts as a failed replica.
\<close>

lemma sole_replica_retry_not_found:
  assumes "codes_ok (bn_lib E)" "get_replica_addresses E b (be_vbucket_for_key E key) READ = [a]"
    and "get_from_replica (bn_lib E) a key data w = (MEMCACHED_CONNECTION_FAILURE, data, 0, wa)"
    and "get_from_replica (bn_lib E) a key data wa = (MEMCACHED_NOTFOUND, data, 0, wb)"
  shows "fst (read_data E t key data cas b w) = TEMPORARY_FAILURE"
proof -
  have "\<not> lm_success (bn_lib E) MEMCACHED_CONNECTION_FAILURE" "\<not> lm_success (bn_lib E) MEMCACHED_NOTFOUND"
    using assms(1) by (simp_all add: codes_ok_def)
  then show ?thesis
    by (simp add: read_data_def assms(2-4) attempts_def numeral_2_eq_2 Let_def)
qed

lemma write_data_finish:
  assumes "operation \<in> {ADD, SET, REPLACE}"
    and "addrs = get_replica_addresses E b (be_vbucket_for_key E key) WRITE"
    and "args = \<lparr>w_key = key, w_vbucket = be_vbucket_for_key E key, w_data = data, w_expiry = expiry,
           w_flags = timestamp_flags (fst ts) (snd ts)\<rparr>"
    and "write_loop (bn_lib E) addrs (conditional_cmd operation cas args) (attempts addrs) 0
      \<lparr>wv_rc = MEMCACHED_ERROR, wv_status = NO_ERROR, wv_replica_idx = 0\<rparr> b w = (v, b1, w1)"
  shows "write_data E t ts operation key data cas expiry b w =
    (let (b2, w2) = (if lm_success (bn_lib E) (wv_rc v) \<and> wv_replica_idx v < length addrs
           then copy_loop (bn_lib E) args (drop (wv_replica_idx v + 1) addrs) b1 w1 else (b1, w1))
     in if \<not> lm_success (bn_lib E) (wv_rc v) \<and> \<not> contention (wv_rc v)
        then (TEMPORARY_FAILURE, inform E False (update_vbucket_comm_state E t (be_vbucket_for_key E key) Comm_FAILED b2), w2)
        else (wv_status v, inform E True (update_vbucket_comm_state E t (be_vbucket_for_key E key) Comm_OK b2), w2))"
  using assms by (auto simp: write_data_def finish_write_def Let_def)

lemma write_data_spec:
  assumes "codes_ok (bn_lib E)" "operation \<in> {ADD, SET, REPLACE}"
    and "addrs = get_replica_addresses E b (be_vbucket_for_key E key) WRITE"
    and "args = \<lparr>w_key = key, w_vbucket = be_vbucket_for_key E key, w_data = data, w_expiry = expiry,
           w_flags = timestamp_flags (fst ts) (snd ts)\<rparr>"
    and "tr = write_trace (bn_lib E) (conditional_cmd operation cas args) (retries (bn_lib E) addrs) (tries addrs) w"
    and "write_data E t ts operation key data cas expiry b w = (status, b', w')"
  shows "be_sent b' = be_sent b @
      sent_all (SentWrite (conditional_cmd operation cas args)) (map fst tr) @
      (if status = NO_ERROR then sent_all (SentWrite (SetVb True args)) (drop (length tr) addrs) else []) \<and>
    status = (if tr = [] then TEMPORARY_FAILURE
              else if lm_success (bn_lib E) (snd (last tr)) then NO_ERROR
              else libmemcached_result_to_memcache_status (snd (last tr)))"
proof -
  let ?lib = "bn_lib E" and ?cmd = "conditional_cmd operation cas args"
  let ?v0 = "\<lparr>wv_rc = MEMCACHED_ERROR, wv_status = NO_ERROR, wv_replica_idx = 0\<rparr>"
  obtain v b1 w1 where loop: "write_loop ?lib addrs ?cmd (attempts addrs) 0 ?v0 b w = (v, b1, w1)"
    by (metis prod_cases3)
  have err: "\<not> lm_success ?lib MEMCACHED_ERROR" "\<not> contention MEMCACHED_ERROR"
    using assms(1) by (simp_all add: codes_ok_def contention_def)
  have k: "be_sent b1 = be_sent b @ sent_all (SentWrite ?cmd) (map fst tr)"
      "wv_rc v = (if tr = [] then MEMCACHED_ERROR else snd (last tr))"
      "wv_status v = (if tr \<noteq> [] \<and> \<not> lm_success ?lib (wv_rc v) \<and> contention (wv_rc v)
         then libmemcached_result_to_memcache_status (wv_rc v) else NO_ERROR)"
      "tr \<noteq> [] \<longrightarrow> wv_replica_idx v = (if length addrs = 1 then 0 else length tr - 1)"
    using write_loop_trace [OF _ _ loop, of tr] assms(5) by (simp_all add: length_tries)
  note res = write_data_finish [OF assms(2-4) loop, of t, unfolded assms(6)]
  show ?thesis
  proof (cases "lm_success ?lib (wv_rc v)")
    case True
    with k err have ne: "tr \<noteq> []" "wv_status v = NO_ERROR" by auto
    have copies: "drop (wv_replica_idx v + 1) addrs = drop (length tr) addrs"
      using k ne(1) by (cases "length addrs = 1") (auto simp: Suc_le_eq)
    have "status = NO_ERROR" and "be_sent b' = be_sent b1 @
        (if wv_replica_idx v < length addrs then sent_all (SentWrite (SetVb True args)) (drop (length tr) addrs) else [])"
      using res True ne copies by (simp_all add: split_def Let_def copy_loop_sent)
    moreover have "drop (length tr) addrs = []" if "\<not> wv_replica_idx v < length addrs"
      using that unfolding copies [symmetric] by simp
    ultimately show ?thesis using k ne True by (auto simp: sent_all_def)
  next
    case False
    with k res err show ?thesis
      by (auto simp: result_status_error no_contention_status split: if_splits)
  qed
qed

text \<open>
  C9: A write tries the conditional request on the replicas in order, a sole replica a second
  time if the connection was lost, and stops at the first that accepts or refuses it. The
  answer is that of the last replica tried. If it accepted, every later replica gets the same
  record unconditionally; otherwise no other request is sent.
\<close>

theorem write_data_result:
  assumes "codes_ok (bn_lib E)" "operation \<in> {ADD, SET, REPLACE}"
    and "addrs = get_replica_addresses E b (be_vbucket_for_key E key) WRITE"
    and "args = \<lparr>w_key = key, w_vbucket = be_vbucket_for_key E key, w_data = data, w_expiry = expiry,
           w_flags = timestamp_flags (fst ts) (snd ts)\<rparr>"
    and "tr = write_trace (bn_lib E) (conditional_cmd operation cas args) (retries (bn_lib E) addrs) (tries addrs) w"
    and "write_data E t ts operation key data cas expiry b w = (status, b', w')"
  shows "be_sent b' = be_sent b @
      sent_all (SentWrite (conditional_cmd operation cas args)) (map fst tr) @
      (if status = NO_ERROR then sent_all (SentWrite (SetVb True args)) (drop (length tr) addrs) else []) \<and>
    status = (if tr = [] then TEMPORARY_FAILURE
              else if lm_success (bn_lib E) (snd (last tr)) then NO_ERROR
              else libmemcached_result_to_memcache_status (snd (last tr)))"
  using write_data_spec [OF assms] .

lemma wit_write_trace:
  "write_trace wit_lib cmd (retries wit_lib wit_addrs) (tries wit_addrs) () =
     [(wit_addrs ! 0, MEMCACHED_ERROR), (wit_addrs ! 1, MEMCACHED_SUCCESS)]"
  by (simp add: tries_def wit_addrs_def wit_lib_def retries_def contention_def)

theorem write_data_result_witness:
  "be_sent (fst (snd (write_data wit_backend_env (5, 6) (1, 0) SET [1] [2] 0 0 wit_backend ()))) =
     (let args = \<lparr>w_key = [1], w_vbucket = 0, w_data = [2], w_expiry = 0, w_flags = 1000\<rparr>
      in [(wit_addrs ! 0, SentWrite (SetVb False args)), (wit_addrs ! 1, SentWrite (SetVb False args)),
          (wit_addrs ! 2, SentWrite (SetVb True args))])"
proof -
  obtain status b' w' where r: "write_data wit_backend_env (5, 6) (1, 0) SET [1] [2] 0 0 wit_backend () = (status, b', w')"
    by (metis prod_cases3)
  have lib: "codes_ok (bn_lib wit_backend_env)" using wit_codes by (simp add: wit_backend_env_def)
  have vb: "be_vbucket_for_key wit_backend_env [1] = 0"
    by (simp add: be_vbucket_for_key_def wit_backend_env_def)
  have nil: "be_sent wit_backend = []" by (simp add: wit_backend_def new_MemcachedBackend_def)
  have "bn_lib wit_backend_env = wit_lib" by (simp add: wit_backend_env_def)
  from write_data_result [OF lib _ wit_replicas [symmetric] refl wit_write_trace [folded this, symmetric] r] show ?thesis
    by (simp add: r vb nil conditional_cmd_def timestamp_flags_def sent_all_def)
      (simp add: wit_backend_env_def wit_lib_def wit_addrs_def Let_def)
qed

text \<open>
  C30: A delete is sent to every read replica. It is reported as done when any replica deleted
  the record; otherwise the report is that of the last replica, whatever the others said.
\<close>

theorem delete_data_result:
  assumes "addrs = get_replica_addresses E b (be_vbucket_for_key E key) READ"
  shows "fst (delete_data E key b w) =
      (if \<exists>rc \<in> set (delete_results (bn_lib E) key addrs w). lm_success (bn_lib E) rc then NO_ERROR
       else if addrs = [] then TEMPORARY_FAILURE
       else libmemcached_result_to_memcache_status (last (delete_results (bn_lib E) key addrs w))) \<and>
    be_sent (fst (snd (delete_data E key b w))) = be_sent b @ map (\<lambda>a. (a, SentDelete key)) addrs"
  by (simp add: delete_data_def assms delete_loop_status delete_loop_sent sent_all_def)

theorem delete_data_result_witness:
  "fst (delete_data wit_backend_env [1] wit_backend ()) = NO_ERROR \<and>
   map fst (be_sent (fst (snd (delete_data wit_backend_env [1] wit_backend ())))) = wit_addrs"
  using delete_data_result [OF wit_replicas [symmetric, of "[1]" READ], of "()"]
  by (simp add: wit_addrs_def wit_backend_env_def wit_lib_def wit_backend_def new_MemcachedBackend_def)

text \<open>
  A configuration that is read replaces the replicas of all vbuckets: every key is then read
  from, and written to, the replicas the new view gives for its vbucket, in their order, less
  those whose address cannot be parsed. One that cannot be read changes nothing.
\<close>

lemma new_view_takes_effect:
  assumes "be_inv b"
  shows "get_replica_addresses E (update_config E config b) (be_vbucket_for_key E key) rw =
    (case config of
       None \<Rightarrow> get_replica_addresses E b (be_vbucket_for_key E key) rw
     | Some cfg \<Rightarrow> List.map_filter (parse_replica E)
         ((if rw = READ then sv_read_replicas else sv_write_replicas) (bn_view E 128 2 cfg) (be_vbucket_for_key E key)))"
proof (cases config)
  case (Some cfg)
  have "be_vbucket_for_key E key < vbuckets" by (rule be_vbucket_for_key_less)
  with Some assms show ?thesis
    by (simp add: update_config_def new_view_def Let_def get_replica_addresses_def be_inv_def fold_update_upt
        nth_append)
      (simp add: vbuckets_def replicas_def)
qed (simp add: update_config_def)

end
