(* ===== verification/Proxy.thy ===== *)
theory Proxy
  imports Connection Backend
begin

text \<open>
  Rogers, the memcached proxy of \<open>proxy_server.cpp\<close>: binding the listening socket, accepting
  connections, the thread that serves a connection and its request handlers over the backend.

  A thread serves one client. The client is the peer of the connection: what it sends next may
  depend on the responses. All threads share the backend and the replicas behind it; between
  two turns of a thread the other threads may have changed them.
\<close>

section \<open>State\<close>

text \<open>
  What the handlers share: the backend, the replicas, and the number of calls made to the
  backend, which indexes the readings of the clocks.
\<close>

record 'w store =
  st_backend :: backend
  st_world :: 'w
  st_calls :: nat

text \<open>
  A connection thread: not yet running, in its loop, behind its loop, or ended. \<open>th_sent\<close> are
  the responses passed to \<open>send\<close>.
\<close>

datatype thread_phase = Created | Running | Closing | Ended

record 'p thread =
  th_phase :: thread_phase
  th_conn :: connection
  th_client :: 'p
  th_sent :: "message list"

text \<open>
  Parameters: the backend's environment, the readings of the clocks per call, the value of the
  uninitialised variable \<open>cas\<close> of \<open>handle_get\<close>, and what reading a message out of bounds gives.
\<close>

record ('w, 'c) proxy_env =
  pe_backend :: "('w, 'c) backend_env"
  pe_monotonic :: "nat \<Rightarrow> (int \<times> int) \<times> (int \<times> int)"
  pe_realtime :: "nat \<Rightarrow> int \<times> int"
  pe_cas :: "nat \<Rightarrow> u64"
  pe_oob :: "nat \<Rightarrow> u32"

section \<open>Request handlers\<close>

definition monotonic_ms :: "('w, 'c) proxy_env \<Rightarrow> nat \<Rightarrow> u64 \<times> u64" where
  "monotonic_ms E n = map_prod current_time_ms current_time_ms (pe_monotonic E n)"

definition reply :: "'p peer \<Rightarrow> message \<Rightarrow> 'p thread \<Rightarrow> 'p thread" where
  "reply client rsp th =
     (let (_, p, c) = send client (th_client th) (th_conn th) rsp
      in th\<lparr>th_client := p, th_conn := c, th_sent := th_sent th @ [rsp]\<rparr>)"

text \<open>A \<open>dynamic_cast\<close> to the class of the request: null if the message is of another class.\<close>

fun as_GetReq :: "message \<Rightarrow> base_message option" where
  "as_GetReq (GetReq b _) = Some b"
| "as_GetReq _ = None"

fun as_DeleteReq :: "message \<Rightarrow> base_message option" where
  "as_DeleteReq (DeleteReq b _) = Some b"
| "as_DeleteReq _ = None"

fun as_SetAddReplaceReq :: "message \<Rightarrow> (base_message \<times> bytes \<times> u32) option" where
  "as_SetAddReplaceReq (SetReq b _ val _ expiry) = Some (b, val, expiry)"
| "as_SetAddReplaceReq (AddReq b _ val _ expiry) = Some (b, val, expiry)"
| "as_SetAddReplaceReq (ReplaceReq b _ val _ expiry) = Some (b, val, expiry)"
| "as_SetAddReplaceReq _ = None"

definition handle_get :: "('w, 'c) proxy_env \<Rightarrow> 'p peer \<Rightarrow> base_message option \<Rightarrow> 'p thread \<Rightarrow> 'w store \<Rightarrow>
    ('p thread \<times> 'w store) outcome" where
  "handle_get E client get_req th st =
     (case get_req of
        None \<Rightarrow> NullDeref
      | Some req \<Rightarrow>
          let n = st_calls st;
              (status, val, cas, b, w) =
                read_data (pe_backend E) (monotonic_ms E n) (m_key req) [] (pe_cas E n) (st_backend st) (st_world st);
              key = (if response_needs_key req then m_key req else []);
              get_rsp = new_GetRsp (result_u16 status) (m_opaque req) cas val 0 key
          in Returns (reply client get_rsp th, \<lparr>st_backend = b, st_world = w, st_calls = n + 1\<rparr>))"

text \<open>
  The cast of an op code to \<open>OpCode\<close>. A byte that is no enumerator stands for itself in C++;
  here it is mapped to \<open>QUIT\<close>, which the backend refuses like any op but the three writes.
\<close>

definition op_cast :: "u8 \<Rightarrow> OpCode" where
  "op_cast opc =
     (case List.find (\<lambda>oc. op_byte oc = opc)
        [GET, SET, ADD, REPLACE, DELETE, QUIT, VERSION, GETK, TAP_CONNECT, TAP_MUTATE, SET_VBUCKET] of
        Some oc \<Rightarrow> oc
      | None \<Rightarrow> QUIT)"

text \<open>
  The \<open>uint32_t\<close> expiry becomes the \<open>int\<close> parameter of \<open>write_data\<close>, the 16-bit status the
  8-bit parameter of the constructors of the responses.
\<close>

definition handle_set_add_replace :: "('w, 'c) proxy_env \<Rightarrow> 'p peer \<Rightarrow> (base_message \<times> bytes \<times> u32) option \<Rightarrow>
    'p thread \<Rightarrow> 'w store \<Rightarrow> ('p thread \<times> 'w store) outcome" where
  "handle_set_add_replace E client sar_req th st =
     (case sar_req of
        None \<Rightarrow> NullDeref
      | Some (req, val, expiry) \<Rightarrow>
          let n = st_calls st;
              (status, b, w) =
                write_data (pe_backend E) (monotonic_ms E n) (pe_realtime E n) (op_cast (m_op_code req)) (m_key req)
                  val (m_cas req) (sint expiry) (st_backend st) (st_world st);
              sar_rsp = new_SetAddReplaceRsp (m_op_code req) (ucast (result_u16 status)) (m_opaque req) 0
          in Returns (reply client sar_rsp th, \<lparr>st_backend = b, st_world = w, st_calls = n + 1\<rparr>))"

definition handle_delete :: "('w, 'c) proxy_env \<Rightarrow> 'p peer \<Rightarrow> base_message option \<Rightarrow> 'p thread \<Rightarrow> 'w store \<Rightarrow>
    ('p thread \<times> 'w store) outcome" where
  "handle_delete E client delete_req th st =
     (case delete_req of
        None \<Rightarrow> NullDeref
      | Some req \<Rightarrow>
          let n = st_calls st;
              (status, b, w) = delete_data (pe_backend E) (m_key req) (st_backend st) (st_world st);
              delete_rsp = new_DeleteRsp (ucast (result_u16 status)) (m_opaque req)
          in Returns (reply client delete_rsp th, \<lparr>st_backend = b, st_world = w, st_calls = n + 1\<rparr>))"

text \<open>The VERSION request is answered in the loop itself.\<close>

definition handle_version :: "'p peer \<Rightarrow> message \<Rightarrow> 'p thread \<Rightarrow> 'w store \<Rightarrow> ('p thread \<times> 'w store) outcome" where
  "handle_version client req th st =
     Returns (reply client
       (new_VersionRsp (result_u16 NO_ERROR) (m_opaque (msg_base req)) (ascii ''1.6.0_beta1_106_g62c7e7a'')) th, st)"

section \<open>The connection thread\<close>

text \<open>The \<open>switch\<close> on the op code. The flag is \<open>keep_going\<close>.\<close>

definition handle_request :: "('w, 'c) proxy_env \<Rightarrow> 'p peer \<Rightarrow> message \<Rightarrow> 'p thread \<Rightarrow> 'w store \<Rightarrow>
    (bool \<times> 'p thread \<times> 'w store) outcome" where
  "handle_request E client msg th st =
     (let opc = op_code msg; go_on = (\<lambda>r. bind_outcome r (\<lambda>(th, st). Returns (True, th, st)))
      in if opc = op_byte GET \<or> opc = op_byte GETK then go_on (handle_get E client (as_GetReq msg) th st)
         else if opc = op_byte ADD \<or> opc = op_byte SET \<or> opc = op_byte REPLACE
         then go_on (handle_set_add_replace E client (as_SetAddReplaceReq msg) th st)
         else if opc = op_byte DELETE then go_on (handle_delete E client (as_DeleteReq msg) th st)
         else if opc = op_byte VERSION then go_on (handle_version client msg th st)
         else if opc = op_byte QUIT then Returns (False, th, st)
         else Returns (False, th, st))"

text \<open>One turn of the loop of \<open>connection_thread_fn\<close>.\<close>

definition connection_turn :: "('w, 'c) proxy_env \<Rightarrow> 'p peer \<Rightarrow> 'p thread \<Rightarrow> 'w store \<Rightarrow>
    (bool \<times> 'p thread \<times> 'w store) outcome" where
  "connection_turn E client th st =
     bind_outcome (recv (pe_oob E) (th_conn th)) (\<lambda>(status, msg, c).
       let th = th\<lparr>th_conn := c\<rparr>
       in if status = St_OK
          then
            (case msg of
               None \<Rightarrow> NullDeref
             | Some m \<Rightarrow> if is_request m then handle_request E client m th st else Returns (False, th, st))
          else Returns (False, th, st))"

text \<open>The loop goes on as long as the client does: not returning is \<open>None\<close>.\<close>

partial_function (option) connection_loop :: "('w, 'c) proxy_env \<Rightarrow> 'p peer \<Rightarrow> 'p thread \<Rightarrow> 'w store \<Rightarrow>
    ('p thread \<times> 'w store) outcome option" where
  "connection_loop E client th st =
     (case connection_turn E client th st of
        Returns (keep_going, th', st') \<Rightarrow>
          if keep_going then connection_loop E client th' st' else Some (Returns (th', st'))
      | Throws \<Rightarrow> Some Throws
      | NullDeref \<Rightarrow> Some NullDeref
      | Blocks \<Rightarrow> Some Blocks
      | Exits rc \<Rightarrow> Some (Exits rc))"

text \<open>Deleting the connection closes its socket.\<close>

definition end_thread :: "'p thread \<Rightarrow> 'p thread" where
  "end_thread th = th\<lparr>th_conn := disconnect (th_conn th), th_phase := Ended\<rparr>"

definition connection_thread_fn :: "('w, 'c) proxy_env \<Rightarrow> 'p peer \<Rightarrow> 'p thread \<Rightarrow> 'w store \<Rightarrow> u32 \<Rightarrow>
    ('p thread \<times> 'w store \<times> u32) outcome option" where
  "connection_thread_fn E client th st num_active_threads =
     (let num_active_threads = num_active_threads + 1
      in map_option
           (\<lambda>r. bind_outcome r (\<lambda>(th, st). Returns (end_thread th, st, num_active_threads - 1)))
           (connection_loop E client (th\<lparr>th_phase := Running\<rparr>) st))"

section \<open>The server\<close>

text \<open>
  The process: serving, ended by \<open>exit\<close>, or aborted by an exception or a null pointer. A
  connection whose thread could not be created is in \<open>sv_leaked\<close> when nothing closes it.
\<close>

datatype process_status = Serving | Exited_with int | Aborted

record ('p, 'w) proxy_server =
  sv_status :: process_status
  sv_threads :: "'p thread list"
  sv_num_active_threads :: u32
  sv_store :: "'w store"
  sv_leaked :: "connection list"

datatype address_family = AF_INET | AF_INET6 | AF_OTHER

text \<open>
  What \<open>accept\<close> returns: the socket, the family, the text of the address by \<open>inet_ntop\<close> and the
  port in network byte order; then what \<open>pthread_create\<close> returns. The client comes with its state
  and with what reading its socket will return.
\<close>

record 'p accept_result =
  ac_sock :: int
  ac_family :: address_family
  ac_address :: string
  ac_port :: u16
  ac_pending :: "recv_event list"
  ac_client :: 'p
  ac_create :: int

definition addr_string :: "endian \<Rightarrow> 'p accept_result \<Rightarrow> string" where
  "addr_string e r =
     (let port = to_string (unat (network_to_host16 e (ac_port r)))
      in if ac_family r = AF_INET then ac_address r @ '':'' @ port
         else ''['' @ ac_address r @ '']'' @ '':'' @ port)"

text \<open>One turn of the loop of \<open>listen_thread_fn\<close>.\<close>

definition listen_turn :: "endian \<Rightarrow> 'p accept_result \<Rightarrow> ('p, 'w) proxy_server \<Rightarrow> ('p, 'w) proxy_server" where
  "listen_turn e r s =
     (if ac_sock r < 0 then s\<lparr>sv_status := Exited_with 1\<rparr>
      else
        let conn = new_ServerConnection (ac_sock r) (addr_string e r) (ac_pending r)
        in if ac_create r = 0
           then s\<lparr>sv_threads := sv_threads s @
                  [\<lparr>th_phase = Created, th_conn = conn, th_client = ac_client r, th_sent = []\<rparr>]\<rparr>
           else if ac_create r < 0 then s
           else s\<lparr>sv_leaked := sv_leaked s @ [conn]\<rparr>)"

text \<open>A turn of the loop of a connection thread, as a step of the process.\<close>

definition thread_turn :: "('w, 'c) proxy_env \<Rightarrow> 'p peer \<Rightarrow> nat \<Rightarrow> ('p, 'w) proxy_server \<Rightarrow> ('p, 'w) proxy_server" where
  "thread_turn E client i s =
     (case connection_turn E client (sv_threads s ! i) (sv_store s) of
        Returns (keep_going, th, st) \<Rightarrow>
          s\<lparr>sv_threads := (sv_threads s)[i := (if keep_going then th else th\<lparr>th_phase := Closing\<rparr>)], sv_store := st\<rparr>
      | Throws \<Rightarrow> s\<lparr>sv_status := Aborted\<rparr>
      | NullDeref \<Rightarrow> s\<lparr>sv_status := Aborted\<rparr>
      | Blocks \<Rightarrow> s
      | Exits rc \<Rightarrow> s\<lparr>sv_status := Exited_with rc\<rparr>)"

text \<open>A client that sends of its own accord.\<close>

definition more_input :: "recv_event list \<Rightarrow> 'p thread \<Rightarrow> 'p thread" where
  "more_input evs th = th\<lparr>th_conn := (th_conn th)\<lparr>c_pending := c_pending (th_conn th) @ evs\<rparr>\<rparr>"

text \<open>
  The steps of the process, in any order: the listener accepts, a thread starts (and counts
  itself), takes a turn, or ends (and counts itself out), a client sends, and the updater
  reloads the configuration of the backend.
\<close>

inductive proxy_step :: "endian \<Rightarrow> ('w, 'c) proxy_env \<Rightarrow> 'p peer \<Rightarrow> ('p, 'w) proxy_server \<Rightarrow> ('p, 'w) proxy_server \<Rightarrow> bool"
  for e E client where
  listen: "sv_status s = Serving \<Longrightarrow> proxy_step e E client s (listen_turn e r s)"
| start_thread: "sv_status s = Serving \<Longrightarrow> i < length (sv_threads s) \<Longrightarrow> th_phase (sv_threads s ! i) = Created \<Longrightarrow>
    proxy_step e E client s
      (s\<lparr>sv_threads := (sv_threads s)[i := (sv_threads s ! i)\<lparr>th_phase := Running\<rparr>],
         sv_num_active_threads := sv_num_active_threads s + 1\<rparr>)"
| turn: "sv_status s = Serving \<Longrightarrow> i < length (sv_threads s) \<Longrightarrow> th_phase (sv_threads s ! i) = Running \<Longrightarrow>
    proxy_step e E client s (thread_turn E client i s)"
| end_of_thread: "sv_status s = Serving \<Longrightarrow> i < length (sv_threads s) \<Longrightarrow> th_phase (sv_threads s ! i) = Closing \<Longrightarrow>
    proxy_step e E client s
      (s\<lparr>sv_threads := (sv_threads s)[i := end_thread (sv_threads s ! i)],
         sv_num_active_threads := sv_num_active_threads s - 1\<rparr>)"
| arrive: "sv_status s = Serving \<Longrightarrow> i < length (sv_threads s) \<Longrightarrow>
    proxy_step e E client s (s\<lparr>sv_threads := (sv_threads s)[i := more_input evs (sv_threads s ! i)]\<rparr>)"
| reload: "sv_status s = Serving \<Longrightarrow>
    proxy_step e E client s
      (s\<lparr>sv_store := (sv_store s)\<lparr>st_backend := update_config (pe_backend E) config (st_backend (sv_store s))\<rparr>\<rparr>)"

inductive_cases proxy_stepE: "proxy_step e E client s s'"

definition new_ProxyServer :: "'w store \<Rightarrow> ('p, 'w) proxy_server" where
  "new_ProxyServer st =
     \<lparr>sv_status = Serving, sv_threads = [], sv_num_active_threads = 0, sv_store = st, sv_leaked = []\<rparr>"

section \<open>Starting the server\<close>

text \<open>
  The system calls of \<open>start\<close> in order, each with its result; \<open>inet_pton\<close> gives 1 for an address
  of the family. The trace records what was asked of the system.
\<close>

record start_env =
  se_inet_pton :: "address_family \<Rightarrow> string \<Rightarrow> int"
  se_socket :: int
  se_setsockopt :: int
  se_bind :: int
  se_listen :: int
  se_create :: int

datatype start_call =
  Call_socket address_family
| Call_reuseaddr int
| Call_bind int address_family string u16
| Call_listen int int
| Call_create

definition proxy_port :: u16 where
  "proxy_port = 11311"

text \<open>The family and the address to bind, \<open>in6addr_any\<close> for the empty text.\<close>

definition parse_bind_addr :: "start_env \<Rightarrow> string \<Rightarrow> (address_family \<times> string) option" where
  "parse_bind_addr S bind_addr =
     (if length bind_addr = 0 then Some (AF_INET6, ''::'')
      else if se_inet_pton S AF_INET bind_addr = 1 then Some (AF_INET, bind_addr)
      else if se_inet_pton S AF_INET6 bind_addr = 1 then Some (AF_INET6, bind_addr)
      else None)"

definition start :: "start_env \<Rightarrow> string \<Rightarrow> bool \<times> start_call list" where
  "start S bind_addr =
     (case parse_bind_addr S bind_addr of
        None \<Rightarrow> (False, [])
      | Some (family, addr) \<Rightarrow>
          let sock = se_socket S; calls = [Call_socket family]
          in if sock < 0 then (False, calls)
             else
               let calls = calls @ [Call_reuseaddr sock]
               in if se_setsockopt S < 0 then (False, calls)
                  else
                    let calls = calls @ [Call_bind sock family addr proxy_port]
                    in if se_bind S < 0 then (False, calls)
                       else
                         let calls = calls @ [Call_listen sock 5]
                         in if se_listen S < 0 then (False, calls)
                            else
                              let calls = calls @ [Call_create]
                              in if se_create S < 0 then (False, calls) else (True, calls))"

section \<open>What the handlers promise\<close>

text \<open>
  A response answers a request when it carries the opaque value of the request and its op
  code; a GETK without a key is answered by a GET response.
\<close>

definition answers :: "base_message \<Rightarrow> message \<Rightarrow> bool" where
  "answers req rsp \<longleftrightarrow> is_response rsp \<and> m_opaque (msg_base rsp) = m_opaque req \<and>
     op_code rsp = (if m_op_code req = op_byte GETK \<and> m_key req = [] then op_byte GET else m_op_code req)"

locale request_handler =
  fixes client :: "'p peer"
    and accepts :: "'r \<Rightarrow> bool"
    and req :: "'r \<Rightarrow> base_message"
    and handle :: "'r \<Rightarrow> 'p thread \<Rightarrow> 'w store \<Rightarrow> ('p thread \<times> 'w store) outcome"
  assumes responds: "accepts r \<Longrightarrow> \<exists>rsp st'. handle r th st = Returns (reply client rsp th, st') \<and> answers (req r) rsp"
    and keeps_inv: "handle r th st = Returns (th', st') \<Longrightarrow> be_inv (st_backend st) \<Longrightarrow> be_inv (st_backend st')"
begin

lemma response:
  assumes "accepts r"
  obtains rsp st' where "handle r th st = Returns (reply client rsp th, st')" "answers (req r) rsp"
    "be_inv (st_backend st) \<longrightarrow> be_inv (st_backend st')"
  using responds [OF assms] keeps_inv by blast

end

lemma be_inv_parts:
  "be_inv b \<Longrightarrow> read_data E t key data cas b w = (status, data', cas', b', w') \<Longrightarrow> be_inv b'"
  "be_inv b \<Longrightarrow> write_data E t ts opn key data cas expiry b w = (status, b', w') \<Longrightarrow> be_inv b'"
  "be_inv b \<Longrightarrow> delete_data E key b w = (status, b', w') \<Longrightarrow> be_inv b'"
  by (metis be_inv_operations fst_conv snd_conv)+

interpretation get: request_handler client "\<lambda>r. m_op_code r = op_byte GET \<or> m_op_code r = op_byte GETK" "\<lambda>r. r"
  "\<lambda>r. handle_get E client (Some r)" for E client
proof unfold_locales
  fix r :: base_message and th st
  assume "m_op_code r = op_byte GET \<or> m_op_code r = op_byte GETK"
  then show "\<exists>rsp st'. handle_get E client (Some r) th st = Returns (reply client rsp th, st') \<and> answers r rsp"
    by (auto simp: handle_get_def split_def Let_def answers_def new_GetRsp_def base_def op_code_def response_needs_key_def)
qed (auto simp: handle_get_def Let_def split: prod.splits dest: be_inv_parts)

interpretation sar: request_handler client "\<lambda>r. m_op_code (fst r) \<in> op_byte ` {ADD, SET, REPLACE}" fst
  "\<lambda>r. handle_set_add_replace E client (Some r)" for E client
proof unfold_locales
  fix r :: "base_message \<times> bytes \<times> u32" and th st
  assume "m_op_code (fst r) \<in> op_byte ` {ADD, SET, REPLACE}"
  then show "\<exists>rsp st'. handle_set_add_replace E client (Some r) th st = Returns (reply client rsp th, st') \<and>
      answers (fst r) rsp"
    by (auto simp: handle_set_add_replace_def split_def Let_def answers_def new_SetAddReplaceRsp_def op_code_def)
qed (auto simp: handle_set_add_replace_def Let_def split: prod.splits dest: be_inv_parts)

interpretation delete: request_handler client "\<lambda>r. m_op_code r = op_byte DELETE" "\<lambda>r. r"
  "\<lambda>r. handle_delete E client (Some r)" for E client
proof unfold_locales
  fix r :: base_message and th st
  assume "m_op_code r = op_byte DELETE"
  then show "\<exists>rsp st'. handle_delete E client (Some r) th st = Returns (reply client rsp th, st') \<and> answers r rsp"
    by (auto simp: handle_delete_def split_def Let_def answers_def new_DeleteRsp_def base_def op_code_def)
qed (auto simp: handle_delete_def Let_def split: prod.splits dest: be_inv_parts)

interpretation version: request_handler client "\<lambda>m. op_code m = op_byte VERSION" msg_base
  "handle_version client" for client
  by unfold_locales (auto simp: handle_version_def answers_def new_VersionRsp_def base_def op_code_def)

text \<open>The requests the proxy serves; every other message ends the connection.\<close>

definition served :: "message \<Rightarrow> bool" where
  "served m \<longleftrightarrow> is_request m \<and> op_code m \<in> op_byte ` {GET, GETK, SET, ADD, REPLACE, DELETE, VERSION}"

lemma dispatch:
  "op_code m = op_byte GET \<or> op_code m = op_byte GETK \<Longrightarrow>
     handle_get E client (as_GetReq m) th st = Returns (th', st') \<Longrightarrow>
     handle_request E client m th st = Returns (True, th', st')"
  "op_code m \<in> op_byte ` {ADD, SET, REPLACE} \<Longrightarrow>
     handle_set_add_replace E client (as_SetAddReplaceReq m) th st = Returns (th', st') \<Longrightarrow>
     handle_request E client m th st = Returns (True, th', st')"
  "op_code m = op_byte DELETE \<Longrightarrow> handle_delete E client (as_DeleteReq m) th st = Returns (th', st') \<Longrightarrow>
     handle_request E client m th st = Returns (True, th', st')"
  "op_code m = op_byte VERSION \<Longrightarrow> handle_version client m th st = Returns (th', st') \<Longrightarrow>
     handle_request E client m th st = Returns (True, th', st')"
  by (auto simp: handle_request_def)

lemma served_cases:
  assumes "op_matches m" "served m"
  obtains (get) b where "as_GetReq m = Some b" "msg_base m = b" "op_code m = op_byte GET \<or> op_code m = op_byte GETK"
  | (sar) b val expiry where "as_SetAddReplaceReq m = Some (b, val, expiry)" "msg_base m = b"
      "op_code m \<in> op_byte ` {ADD, SET, REPLACE}"
  | (delete) b where "as_DeleteReq m = Some b" "msg_base m = b" "op_code m = op_byte DELETE"
  | (version) "op_code m = op_byte VERSION"
  using assms by (cases m) (auto simp: served_def is_request_def op_code_def)

lemma handle_request_served:
  assumes "op_matches m" "served m"
  obtains rsp st' where "handle_request E client m th st = Returns (True, reply client rsp th, st')"
    "answers (msg_base m) rsp" "be_inv (st_backend st) \<longrightarrow> be_inv (st_backend st')"
  using assms
proof (cases rule: served_cases)
  case (get b)
  then have "m_op_code b = op_byte GET \<or> m_op_code b = op_byte GETK" by (simp add: op_code_def)
  from get.response [OF this] get that show ?thesis by (metis dispatch(1))
next
  case (sar b val expiry)
  then have "m_op_code (fst (b, val, expiry)) \<in> op_byte ` {ADD, SET, REPLACE}" by (simp add: op_code_def)
  from sar.response [OF this] sar that show ?thesis by (metis dispatch(2) fst_conv)
next
  case (delete b)
  then have "m_op_code b = op_byte DELETE" by (simp add: op_code_def)
  from delete.response [OF this] delete that show ?thesis by (metis dispatch(3))
next
  case version
  from version.response [OF this] version that show ?thesis by (metis dispatch(4))
qed

lemma handle_request_other:
  assumes "is_request m" "\<not> served m"
  shows "handle_request E client m th st = Returns (False, th, st)"
  using assms by (auto simp: handle_request_def served_def Let_def)

section \<open>Turns of a connection thread\<close>

lemma recv_loop_parsed:
  "recv_loop (from_wire oob) timeo buf evs = Returns (st, Some m, buf', evs') \<Longrightarrow> op_matches m"
proof (induction "from_wire oob" timeo buf evs rule: recv_loop.induct)
  case (1 timeo buf)
  then show ?case
    by (auto simp: bind_outcome_Returns_iff split: option.splits if_splits dest: from_wire_SomeD(1))
next
  case (2 timeo buf ev evs)
  then obtain r where r: "from_wire oob buf = Returns r" by (auto simp: bind_outcome_Returns_iff)
  with 2 show ?case
    by (cases r) (auto split: if_splits recv_event.splits dest: from_wire_SomeD(1))
qed

lemma recv_parsed: "recv oob c = Returns (st, Some m, c') \<Longrightarrow> op_matches m"
  by (auto simp: recv_def bind_outcome_Returns_iff split: if_splits dest: recv_loop_parsed)

lemma recv_loop_no_crash:
  "recv_loop (from_wire oob) timeo buf evs \<noteq> NullDeref \<and> recv_loop (from_wire oob) timeo buf evs \<noteq> Exits rc"
proof (induction "from_wire oob" timeo buf evs rule: recv_loop.induct)
  case (1 timeo buf)
  then show ?case by (cases "from_wire oob buf") (auto split: option.splits)
next
  case (2 timeo buf ev evs)
  then show ?case by (cases "from_wire oob buf") (auto split: option.splits recv_event.splits)
qed

lemma recv_no_crash: "recv oob c \<noteq> NullDeref \<and> recv oob c \<noteq> Exits rc"
  using recv_loop_no_crash [of oob "c_rcvtimeo c" "c_buffer c" "c_pending c" rc]
  by (cases "recv_loop (from_wire oob) (c_rcvtimeo c) (c_buffer c) (c_pending c)") (auto simp: recv_def)

lemma reply_simps [simp]:
  "th_sent (reply client rsp th) = th_sent th @ [rsp]" "th_phase (reply client rsp th) = th_phase th"
  by (simp_all add: reply_def split_def Let_def)

lemma sock_ok_reply: "sock_ok (th_conn th) \<Longrightarrow> sock_ok (th_conn (reply client rsp th))"
  by (auto simp: reply_def split: prod.splits dest: sock_ok_send)

text \<open>
  The three ways a turn ends: the message is a request that is served, it is any other message,
  or there is none.
\<close>

lemma connection_turn_message:
  assumes "recv (pe_oob E) (th_conn th) = Returns (St_OK, Some m, c)"
  shows "served m \<Longrightarrow> \<exists>rsp st'. connection_turn E client th st =
      Returns (True, reply client rsp (th\<lparr>th_conn := c\<rparr>), st') \<and> answers (msg_base m) rsp \<and>
      (be_inv (st_backend st) \<longrightarrow> be_inv (st_backend st'))"
    and "\<not> served m \<Longrightarrow> connection_turn E client th st = Returns (False, th\<lparr>th_conn := c\<rparr>, st)"
proof -
  assume m: "served m"
  then have "is_request m" by (simp add: served_def)
  then have turn: "connection_turn E client th st = handle_request E client m (th\<lparr>th_conn := c\<rparr>) st"
    using assms by (simp add: connection_turn_def Let_def)
  obtain rsp st' where "handle_request E client m (th\<lparr>th_conn := c\<rparr>) st = Returns (True, reply client rsp (th\<lparr>th_conn := c\<rparr>), st')"
    "answers (msg_base m) rsp" "be_inv (st_backend st) \<longrightarrow> be_inv (st_backend st')"
    by (rule handle_request_served [OF recv_parsed [OF assms] m])
  then show "\<exists>rsp st'. connection_turn E client th st =
      Returns (True, reply client rsp (th\<lparr>th_conn := c\<rparr>), st') \<and> answers (msg_base m) rsp \<and>
      (be_inv (st_backend st) \<longrightarrow> be_inv (st_backend st'))"
    unfolding turn by blast
next
  assume "\<not> served m"
  then show "connection_turn E client th st = Returns (False, th\<lparr>th_conn := c\<rparr>, st)"
    using assms by (simp add: connection_turn_def handle_request_other Let_def)
qed

lemma connection_turn_none:
  assumes "recv (pe_oob E) (th_conn th) = Returns (status, None, c)"
  shows "connection_turn E client th st = Returns (False, th\<lparr>th_conn := c\<rparr>, st)"
  using assms recv_OK_Some [OF assms] by (auto simp: connection_turn_def Let_def)

lemma connection_turn_cases:
  obtains (served) m c rsp st' where "recv (pe_oob E) (th_conn th) = Returns (St_OK, Some m, c)" "served m"
      "connection_turn E client th st = Returns (True, reply client rsp (th\<lparr>th_conn := c\<rparr>), st')"
      "answers (msg_base m) rsp" "be_inv (st_backend st) \<longrightarrow> be_inv (st_backend st')"
  | (ended) status msg c where "recv (pe_oob E) (th_conn th) = Returns (status, msg, c)"
      "connection_turn E client th st = Returns (False, th\<lparr>th_conn := c\<rparr>, st)"
  | (throws) "connection_turn E client th st = Throws"
  | (blocks) "connection_turn E client th st = Blocks"
proof (cases "recv (pe_oob E) (th_conn th)")
  case (Returns r)
  then obtain status msg c where r: "recv (pe_oob E) (th_conn th) = Returns (status, msg, c)"
    by (metis prod_cases3)
  show ?thesis
  proof (cases msg)
    case None
    with r show ?thesis using ended connection_turn_none by blast
  next
    case (Some m)
    with r recv_OK_Some [OF r] have ok: "recv (pe_oob E) (th_conn th) = Returns (St_OK, Some m, c)" by simp
    show ?thesis
      using connection_turn_message [OF ok, of client st] served [OF ok] ended [OF ok] by blast
  qed
qed (use recv_no_crash throws blocks in \<open>auto simp: connection_turn_def\<close>)

section \<open>The invariant of the server\<close>

definition active :: "'p thread \<Rightarrow> bool" where
  "active th \<longleftrightarrow> th_phase th = Running \<or> th_phase th = Closing"

text \<open>
  A thread holds a descriptor or -1, has sent responses only, none before it runs, and has
  closed its socket when it has ended (descriptor 0 is never closed).
\<close>

definition thread_inv :: "'p thread \<Rightarrow> bool" where
  "thread_inv th \<longleftrightarrow> sock_ok (th_conn th) \<and> list_all is_response (th_sent th) \<and>
     (th_phase th = Created \<longrightarrow> th_sent th = []) \<and> (th_phase th = Ended \<longrightarrow> c_sock (th_conn th) \<le> 0)"

definition proxy_inv :: "('p, 'w) proxy_server \<Rightarrow> bool" where
  "proxy_inv s \<longleftrightarrow> be_inv (st_backend (sv_store s)) \<and> list_all thread_inv (sv_threads s) \<and>
     sv_num_active_threads s = of_nat (length (filter active (sv_threads s)))"

lemma filter_list_update:
  "i < length xs \<Longrightarrow>
     length (filter P (xs[i := x])) + of_bool (P (xs ! i)) = length (filter P xs) + of_bool (P x)"
proof (induction xs arbitrary: i)
  case (Cons y xs)
  then show ?case by (cases i) auto
qed simp

lemma list_all_update: "list_all P xs \<Longrightarrow> P x \<Longrightarrow> list_all P (xs[i := x])"
  by (auto simp: list_all_iff dest: set_update_subset_insert [THEN subsetD])

lemma proxy_inv_update:
  assumes "proxy_inv s" "i < length (sv_threads s)" "thread_inv th" "be_inv (st_backend st)"
    and "n + of_bool (active (sv_threads s ! i)) = sv_num_active_threads s + of_bool (active th)"
  shows "proxy_inv (s\<lparr>sv_threads := (sv_threads s)[i := th], sv_store := st, sv_num_active_threads := n\<rparr>)"
proof -
  have "(of_nat (length (filter active ((sv_threads s)[i := th]))) :: u32) + of_bool (active (sv_threads s ! i)) =
      of_nat (length (filter active (sv_threads s))) + of_bool (active th)"
    using filter_list_update [OF assms(2), of active th] by (metis of_nat_add of_nat_of_bool)
  with assms show ?thesis
    by (simp add: proxy_inv_def list_all_update) (metis add_right_cancel)
qed

lemma thread_inv_nth: "proxy_inv s \<Longrightarrow> i < length (sv_threads s) \<Longrightarrow> thread_inv (sv_threads s ! i)"
  by (simp add: proxy_inv_def list_all_length)

lemma thread_inv_turn:
  assumes "thread_inv th" "th_phase th = Running"
    and "connection_turn E client th st = Returns (keep_going, th', st')" "be_inv (st_backend st)"
  shows "thread_inv th' \<and> th_phase th' = Running \<and> be_inv (st_backend st')"
proof (cases rule: connection_turn_cases [of E th client st])
  case (served m c rsp st'')
  then have "sock_ok c" using assms(1) by (auto simp: thread_inv_def dest: sock_ok_recv)
  then have "sock_ok (th_conn (reply client rsp (th\<lparr>th_conn := c\<rparr>)))" by (intro sock_ok_reply) simp
  with served assms show ?thesis by (auto simp: thread_inv_def answers_def)
next
  case (ended status msg c)
  then have "sock_ok c" using assms(1) by (auto simp: thread_inv_def dest: sock_ok_recv)
  with ended assms show ?thesis by (auto simp: thread_inv_def)
qed (use assms in simp_all)

lemma proxy_inv_listen:
  assumes "proxy_inv s"
  shows "proxy_inv (listen_turn e r s)"
  using assms
  by (auto simp: listen_turn_def Let_def proxy_inv_def active_def thread_inv_def new_ServerConnection_def sock_ok_def)

lemma proxy_inv_turn:
  assumes "proxy_inv s" "i < length (sv_threads s)" "th_phase (sv_threads s ! i) = Running"
  shows "proxy_inv (thread_turn E client i s)"
proof (cases "connection_turn E client (sv_threads s ! i) (sv_store s)")
  case (Returns r)
  obtain keep_going th st where r: "r = (keep_going, th, st)" by (metis prod_cases3)
  let ?th = "if keep_going then th else th\<lparr>th_phase := Closing\<rparr>"
  have "thread_inv th" "th_phase th = Running" "be_inv (st_backend st)"
    using thread_inv_turn [OF thread_inv_nth [OF assms(1,2)] assms(3) Returns [unfolded r]] assms(1)
    by (auto simp: proxy_inv_def)
  then have "thread_inv ?th" "active ?th" "be_inv (st_backend st)" by (auto simp: thread_inv_def active_def)
  with proxy_inv_update [OF assms(1,2), of ?th st "sv_num_active_threads s"] assms(3) Returns r show ?thesis
    by (simp add: thread_turn_def active_def)
qed (use assms(1) in \<open>simp_all add: thread_turn_def proxy_inv_def\<close>)

lemma thread_inv_end: "thread_inv th \<Longrightarrow> thread_inv (end_thread th)"
  by (auto simp: thread_inv_def end_thread_def disconnect_def sock_ok_def)

lemma not_active_end: "\<not> active (end_thread th)"
  by (simp add: active_def end_thread_def)

lemma proxy_inv_step: "proxy_step e E client s s' \<Longrightarrow> proxy_inv s \<Longrightarrow> proxy_inv s'"
proof (induction rule: proxy_step.induct)
  case (start_thread s i)
  then show ?case
    using proxy_inv_update [OF start_thread(4,2), of "(sv_threads s ! i)\<lparr>th_phase := Running\<rparr>" "sv_store s"]
      thread_inv_nth [of s i]
    by (simp add: thread_inv_def active_def proxy_inv_def)
next
  case (end_of_thread s i)
  have "active (sv_threads s ! i)" "be_inv (st_backend (sv_store s))"
    using end_of_thread(3,4) by (simp_all add: active_def proxy_inv_def)
  with proxy_inv_update [OF end_of_thread(4,2) thread_inv_end, of "sv_threads s ! i" "sv_store s" "sv_num_active_threads s - 1"]
    thread_inv_nth [OF end_of_thread(4,2)] show ?case
    by (simp add: not_active_end)
next
  case (arrive s i evs)
  then show ?case
    using proxy_inv_update [OF arrive(3,2), of "more_input evs (sv_threads s ! i)" "sv_store s" "sv_num_active_threads s"]
      thread_inv_nth [of s i]
    by (simp add: thread_inv_def active_def proxy_inv_def more_input_def sock_ok_def)
next
  case (reload s config)
  then show ?case by (simp add: proxy_inv_def be_inv_operations(1))
qed (simp_all add: proxy_inv_listen proxy_inv_turn)

section \<open>Serving a client\<close>

text \<open>Replies to a client whose socket stays open and that sends nothing of its own change no other field.\<close>

definition sends_nothing :: "'p peer \<Rightarrow> bool" where
  "sends_nothing client \<longleftrightarrow> (\<forall>p bs. snd (client p bs) = (True, []))"

lemma reply_quiet:
  assumes "sends_nothing client" "c_sock (th_conn th) \<ge> 0"
  shows "th_conn (reply client rsp th) = th_conn th"
  using assms by (simp add: reply_def send_def sends_nothing_def Let_def split_def)

lemma connection_loop_stream:
  assumes "sends_nothing client"
    and "c_sock (th_conn th) \<ge> 0" "c_buffer (th_conn th) @ concat chunks = concat (map to_wire ms)"
    and "c_pending (th_conn th) = map Recv chunks @ [Recv []]" "[] \<notin> set chunks"
    and "list_all (self_parsing (pe_oob E)) ms" "list_all served ms" "length (concat (map to_wire ms)) < 2 ^ 32"
  shows "\<exists>rsps th' st'. connection_loop E client th st = Some (Returns (th', st')) \<and>
    th_sent th' = th_sent th @ rsps \<and> list_all2 (\<lambda>m. answers (msg_base m)) ms rsps \<and> c_sock (th_conn th') = -1 \<and>
    (be_inv (st_backend st) \<longrightarrow> be_inv (st_backend st'))"
  using assms
proof (induction ms arbitrary: th st chunks)
  case Nil
  then have "chunks = []" "c_buffer (th_conn th) = []" by (cases chunks; auto)+
  with Nil have "recv (pe_oob E) (th_conn th) =
      Returns (St_DISCONNECTED, None, (th_conn th)\<lparr>c_sock := -1, c_pending := []\<rparr>)"
    by (simp add: recv_def)
  from connection_turn_none [OF this] show ?case by (simp add: connection_loop.simps)
next
  case (Cons m ms)
  let ?rest = "concat (map to_wire ms)"
  obtain buf' chunks' where
    loop: "recv_loop (from_wire (pe_oob E)) (c_rcvtimeo (th_conn th)) (c_buffer (th_conn th)) (map Recv chunks @ [Recv []]) =
       Returns (St_OK, Some m, buf', map Recv chunks' @ [Recv []])"
    and rest: "buf' @ concat chunks' = ?rest" "[] \<notin> set chunks'"
    using wire.recv_loop_chunks [of "pe_oob E" m ?rest "c_buffer (th_conn th)" chunks "c_rcvtimeo (th_conn th)"
        "[Recv []]"] Cons.prems
    by auto
  let ?c = "(th_conn th)\<lparr>c_buffer := buf', c_pending := map Recv chunks' @ [Recv []]\<rparr>"
  have "recv (pe_oob E) (th_conn th) = Returns (St_OK, Some m, ?c)"
    using loop Cons.prems(2,4) by (simp add: recv_def)
  from connection_turn_message(1) [OF this, of client st] Cons.prems(7) obtain rsp st1 where
    turn: "connection_turn E client th st = Returns (True, reply client rsp (th\<lparr>th_conn := ?c\<rparr>), st1)"
      "answers (msg_base m) rsp" "be_inv (st_backend st) \<longrightarrow> be_inv (st_backend st1)"
    by auto
  let ?th = "reply client rsp (th\<lparr>th_conn := ?c\<rparr>)"
  have conn: "th_conn ?th = ?c" using Cons.prems(1,2) by (simp add: reply_quiet)
  obtain rsps th' st' where "connection_loop E client ?th st1 = Some (Returns (th', st'))"
    "th_sent th' = th_sent ?th @ rsps" "list_all2 (\<lambda>m. answers (msg_base m)) ms rsps" "c_sock (th_conn th') = -1"
    "be_inv (st_backend st1) \<longrightarrow> be_inv (st_backend st')"
    using Cons.IH [OF Cons.prems(1), of ?th chunks' st1] Cons.prems rest conn by auto
  with turn show ?case by (intro exI [of _ "rsp # rsps"] exI) (subst connection_loop.simps, auto)
qed

section \<open>Properties\<close>

text \<open>
  C8: A client that sends requests, cut into chunks by the network in any way, and then closes
  the connection, gets one response to each, in the order of the requests, with the opaque value
  and the op code of the request. The thread then ends: it closes the socket and counts itself
  out. Nothing else is sent.
\<close>

theorem requests_answered_in_order:
  assumes "sends_nothing client" "sock \<ge> 0"
    and "th = \<lparr>th_phase = Created, th_conn = new_ServerConnection sock addr (map Recv chunks @ [Recv []]),
           th_client = p, th_sent = []\<rparr>"
    and "concat chunks = concat (map to_wire ms)" "[] \<notin> set chunks" "length (concat chunks) < 2 ^ 32"
    and "list_all (self_parsing (pe_oob E)) ms" "list_all served ms"
  shows "\<exists>th' st'. connection_thread_fn E client th st n = Some (Returns (th', st', n)) \<and>
    list_all2 (\<lambda>m. answers (msg_base m)) ms (th_sent th') \<and> th_phase th' = Ended \<and> c_sock (th_conn th') = -1"
proof -
  have "\<exists>rsps th' st'. connection_loop E client (th\<lparr>th_phase := Running\<rparr>) st = Some (Returns (th', st')) \<and>
    th_sent th' = th_sent (th\<lparr>th_phase := Running\<rparr>) @ rsps \<and> list_all2 (\<lambda>m. answers (msg_base m)) ms rsps \<and>
    c_sock (th_conn th') = -1 \<and> (be_inv (st_backend st) \<longrightarrow> be_inv (st_backend st'))"
    by (rule connection_loop_stream [where chunks = chunks]) (use assms in \<open>simp_all add: new_ServerConnection_def\<close>)
  then show ?thesis
    using assms(3) by (auto simp: connection_thread_fn_def end_thread_def disconnect_def)
qed

definition wit_proxy_env :: "(unit, store_view) proxy_env" where
  "wit_proxy_env =
     \<lparr>pe_backend = wit_backend_env, pe_monotonic = \<lambda>_. ((5, 0), (5, 1000000)), pe_realtime = \<lambda>_. (1, 0), pe_cas = \<lambda>_. 77, pe_oob = \<lambda>_. 0\<rparr>"

definition wit_store :: "unit store" where
  "wit_store = \<lparr>st_backend = wit_backend, st_world = (), st_calls = 0\<rparr>"

definition wit_requests :: "message list" where
  "wit_requests = [new_GetReq [1] 7, new_DeleteReq [1] 8]"

lemma length_wit_requests: "length (concat (map to_wire wit_requests)) = 50"
  by (simp add: wit_requests_def length_to_wire new_GetReq_def new_DeleteReq_def base_def)

theorem requests_answered_in_order_witness:
  "\<exists>th' st'. connection_thread_fn wit_proxy_env (\<lambda>p bs. (p, True, []))
      \<lparr>th_phase = Created, th_conn = new_ServerConnection 4 ''a'' (map Recv [concat (map to_wire wit_requests)] @ [Recv []]),
       th_client = (), th_sent = []\<rparr>
      wit_store 3 = Some (Returns (th', st', 3)) \<and>
    map (m_opaque \<circ> msg_base) (th_sent th') = [7, 8] \<and> map op_code (th_sent th') = [op_byte GET, op_byte DELETE]"
proof -
  let ?bin = "concat (map to_wire wit_requests)"
  have "?bin \<noteq> []" using length_wit_requests by (metis list.size(3) zero_neq_numeral)
  then have ne: "[] \<notin> set [?bin]" by simp
  have ok: "list_all (self_parsing (pe_oob wit_proxy_env)) wit_requests" "list_all served wit_requests"
    by (simp_all add: wit_requests_def self_parsing_def new_GetReq_def new_DeleteReq_def base_def served_def
        is_request_def op_code_def)
  have "length (concat [?bin]) < 2 ^ 32" using length_wit_requests by simp
  from requests_answered_in_order [OF _ _ refl _ ne this ok, of "\<lambda>p bs. (p, True, [])" 4 "''a''" "()" wit_store 3]
  obtain th' st' where "connection_thread_fn wit_proxy_env (\<lambda>p bs. (p, True, []))
      \<lparr>th_phase = Created, th_conn = new_ServerConnection 4 ''a'' (map Recv [?bin] @ [Recv []]), th_client = (), th_sent = []\<rparr>
      wit_store 3 = Some (Returns (th', st', 3))"
    "list_all2 (\<lambda>m. answers (msg_base m)) wit_requests (th_sent th')"
    by (auto simp: sends_nothing_def)
  then show ?thesis
    by (intro exI [of _ th'] exI [of _ st'])
      (auto simp: wit_requests_def list_all2_Cons1 answers_def new_GetReq_def new_DeleteReq_def base_def)
qed

text \<open>
  C14: In every state the process can reach, whatever the order in which the listener, the
  threads, the clients and the updater take their steps, the number of active threads is that of
  the threads in their loop or about to end, every thread has sent responses only, an ended one
  has closed its socket, and the backend keeps its invariant.
\<close>

theorem server_invariant:
  assumes "(proxy_step e E client)\<^sup>*\<^sup>* (new_ProxyServer st) s" "be_inv (st_backend st)"
  shows "sv_num_active_threads s = of_nat (length (filter active (sv_threads s))) \<and>
    be_inv (st_backend (sv_store s)) \<and>
    (\<forall>th \<in> set (sv_threads s). list_all is_response (th_sent th) \<and>
       (th_phase th = Ended \<longrightarrow> c_sock (th_conn th) \<le> 0))"
proof -
  have "proxy_inv (new_ProxyServer st)" using assms(2) by (simp add: proxy_inv_def new_ProxyServer_def)
  with assms(1) have "proxy_inv s" by (induction rule: rtranclp_induct) (blast intro: proxy_inv_step)+
  then show ?thesis by (auto simp: proxy_inv_def thread_inv_def list_all_iff)
qed

definition wit_accept :: "recv_event list \<Rightarrow> unit accept_result" where
  "wit_accept evs =
     \<lparr>ac_sock = 4, ac_family = AF_INET, ac_address = ''10.0.0.1'', ac_port = 7, ac_pending = evs, ac_client = (),
      ac_create = 0\<rparr>"

theorem server_invariant_witness:
  "\<exists>s. (proxy_step LittleEndian wit_proxy_env (\<lambda>p bs. (p :: unit, True, [])))\<^sup>*\<^sup>* (new_ProxyServer wit_store) s \<and>
     length (sv_threads s) = 1 \<and> sv_num_active_threads s = 1 \<and>
     sv_num_active_threads s = of_nat (length (filter active (sv_threads s)))"
proof -
  let ?step = "proxy_step LittleEndian wit_proxy_env (\<lambda>p bs. (p :: unit, True, []))"
  let ?a = "listen_turn LittleEndian (wit_accept []) (new_ProxyServer wit_store)"
  let ?b = "?a\<lparr>sv_threads := (sv_threads ?a)[0 := (sv_threads ?a ! 0)\<lparr>th_phase := Running\<rparr>],
               sv_num_active_threads := sv_num_active_threads ?a + 1\<rparr>"
  have "?step (new_ProxyServer wit_store) ?a" by (rule listen) (simp add: new_ProxyServer_def)
  moreover have "?step ?a ?b"
    by (rule start_thread) (simp_all add: listen_turn_def wit_accept_def new_ProxyServer_def Let_def)
  ultimately have reach: "?step\<^sup>*\<^sup>* (new_ProxyServer wit_store) ?b" by simp
  have "be_inv (st_backend wit_store)"
    using be_inv_new by (simp add: wit_store_def wit_backend_def be_inv_def failed_vbuckets_def)
  moreover have "length (sv_threads ?b) = 1" "sv_num_active_threads ?b = 1"
    by (simp_all add: listen_turn_def wit_accept_def new_ProxyServer_def Let_def)
  ultimately show ?thesis
    using server_invariant [OF reach] reach by blast
qed

text \<open>
  C38: Any client can end the process. In every state in which the proxy serves, a client that
  connects and sends one complete message whose extras are announced longer than the bytes sent
  makes the parser throw; nothing catches the exception, and the process aborts with the
  connections of all other clients.
\<close>

theorem client_can_abort_proxy:
  fixes client :: "'p peer"
  assumes "sv_status s = Serving"
    and "is_msg_complete msg \<noteq> None" "length msg < 24 + unat (hdr_extra_length msg)"
  shows "\<exists>s'. (proxy_step e E client)\<^sup>*\<^sup>* s s' \<and> sv_status s' = Aborted"
proof -
  let ?i = "length (sv_threads s)"
  let ?r = "\<lparr>ac_sock = 4, ac_family = AF_INET, ac_address = [], ac_port = 7, ac_pending = [Recv msg],
             ac_client = undefined :: 'p, ac_create = 0\<rparr>"
  let ?a = "listen_turn e ?r s"
  let ?b = "?a\<lparr>sv_threads := (sv_threads ?a)[?i := (sv_threads ?a ! ?i)\<lparr>th_phase := Running\<rparr>],
               sv_num_active_threads := sv_num_active_threads ?a + 1\<rparr>"
  have throws: "from_wire (pe_oob E) msg = Throws"
    using assms(2,3) by (rule extra_length_overrun_throws)
  then have "msg \<noteq> []" by (metis from_wire_short list.size(3) outcome.distinct(1) zero_less_numeral)
  have a: "sv_status ?a = Serving" "length (sv_threads ?a) = ?i + 1" "th_phase (sv_threads ?a ! ?i) = Created"
      "th_conn (sv_threads ?a ! ?i) = new_ServerConnection 4 (addr_string e ?r) [Recv msg]"
    using assms(1) by (simp_all add: listen_turn_def Let_def)
  have "proxy_step e E client s ?a" by (rule listen [OF assms(1)])
  moreover have "proxy_step e E client ?a ?b" using a by (intro start_thread) simp_all
  moreover have "proxy_step e E client ?b (thread_turn E client ?i ?b)" using a by (intro turn) simp_all
  moreover have "connection_turn E client (sv_threads ?b ! ?i) (sv_store ?b) = Throws"
    using a throws \<open>msg \<noteq> []\<close> by (simp add: connection_turn_def recv_def new_ServerConnection_def)
  then have "sv_status (thread_turn E client ?i ?b) = Aborted" by (simp add: thread_turn_def)
  ultimately show ?thesis
    by (intro exI [of _ "thread_turn E client ?i ?b"]) (meson r_into_rtranclp rtranclp_trans)
qed

theorem client_can_abort_proxy_witness:
  "\<exists>s'. (proxy_step LittleEndian wit_proxy_env (\<lambda>p bs. (p :: unit, True, [])))\<^sup>*\<^sup>* (new_ProxyServer wit_store) s' \<and>
     sv_status s' = Aborted"
proof -
  let ?msg = "hdr_bytes 0x80 (op_byte GET) 0 255 0 0 0 0 @ []"
  have "is_msg_complete ?msg \<noteq> None" "length ?msg < 24 + unat (hdr_extra_length ?msg)"
    unfolding hdr_fields by (subst is_msg_complete_hdr) simp_all
  from client_can_abort_proxy [OF _ this, of "new_ProxyServer wit_store"] show ?thesis
    by (simp add: new_ProxyServer_def)
qed

text \<open>
  \<open>pthread_create\<close> reports failure by a positive number, which the checks for a negative one
  do not see: the server is reported as started without its listening thread, and a connection
  whose thread cannot be created is neither served nor closed.
\<close>

lemma thread_creation_failure_unnoticed:
  assumes "0 < se_create S" "parse_bind_addr S bind_addr = Some (family, addr)"
    and "0 \<le> se_socket S" "0 \<le> se_setsockopt S" "0 \<le> se_bind S" "0 \<le> se_listen S"
    and "0 < ac_create r" "0 \<le> ac_sock r"
  shows "fst (start S bind_addr) \<and> sv_threads (listen_turn e r s) = sv_threads s \<and>
    (\<exists>c \<in> set (sv_leaked (listen_turn e r s)). c_sock c = ac_sock r)"
  using assms by (simp add: start_def listen_turn_def Let_def new_ServerConnection_def)

end
