(* ===== verification/Mains.thy ===== *)
theory Mains
  imports Proxy
begin

text \<open>
  The entry points of the two programs, \<open>proxy_main.cpp\<close> (Rogers) and \<open>resync_main.cpp\<close>
  (Astaire): command line options, the order in which objects are created and deleted, and the
  exit codes. \<open>getopt_long\<close> and \<open>atoi\<close> are modelled as far as the two programs use them.
\<close>

section \<open>getopt\_long and atoi\<close>

datatype has_arg = no_argument | required_argument

text \<open>
  The value of an option is the enumerator of \<open>Options\<close>. The programs number the enumerators
  from 257, so that none of them is the \<open>?\<close> that \<open>getopt_long\<close> returns for an error, which is
  \<open>None\<close> here.
\<close>

datatype Options = LOCAL_NAME | CLUSTER_SETTINGS_FILE | BIND_ADDR | LOG_FILE | LOG_LEVEL | PIDFILE | DAEMON | HELP

type_synonym long_option = "string \<times> has_arg \<times> Options"

text \<open>An option may be abbreviated to any prefix that is not ambiguous.\<close>

definition match_long :: "long_option list \<Rightarrow> string \<Rightarrow> long_option option" where
  "match_long long_opt name =
     (case List.find (\<lambda>(n, _). n = name) long_opt of
        Some opt \<Rightarrow> Some opt
      | None \<Rightarrow> (case filter (\<lambda>(n, _). take (length name) n = name) long_opt of [opt] \<Rightarrow> Some opt | _ \<Rightarrow> None))"

text \<open>What the argument is cut into at its first \<open>=\<close>.\<close>

definition split_eq :: "string \<Rightarrow> string \<times> string option" where
  "split_eq s =
     (let name = takeWhile (\<lambda>c. c \<noteq> CHR ''='') s; rest = dropWhile (\<lambda>c. c \<noteq> CHR ''='') s
      in (name, case rest of [] \<Rightarrow> None | _ # val \<Rightarrow> Some val))"

text \<open>
  The results of the calls of \<open>getopt_long\<close> with an empty string of short options, up to the one
  that returns -1, each with \<open>optarg\<close>. Arguments that are no options are passed over; an unknown
  or ambiguous option, a short option, a missing argument and an unwanted one give \<open>?\<close>.
\<close>

function (sequential) getopt_long :: "long_option list \<Rightarrow> string list \<Rightarrow> (Options option \<times> string) list" where
  "getopt_long long_opt [] = []"
| "getopt_long long_opt (a # args) =
     (if a = ''--'' then []
      else if take 2 a = ''--'' then
        let (name, val) = split_eq (drop 2 a)
        in case match_long long_opt name of
             None \<Rightarrow> (None, []) # getopt_long long_opt args
           | Some (_, no_argument, v) \<Rightarrow>
               (if val = None then (Some v, []) else (None, [])) # getopt_long long_opt args
           | Some (_, required_argument, v) \<Rightarrow>
               (case val of
                  Some x \<Rightarrow> (Some v, x) # getopt_long long_opt args
                | None \<Rightarrow>
                    (case args of
                       [] \<Rightarrow> [(None, [])]
                     | x # args' \<Rightarrow> (Some v, x) # getopt_long long_opt args'))
      else if take 1 a = ''-'' \<and> length a > 1
      then replicate (length a - 1) (None, []) @ getopt_long long_opt args
      else getopt_long long_opt args)"
  by pat_completeness auto
termination by (relation "measure (\<lambda>(_, args). length args)") auto

declare getopt_long.simps(2) [simp del]

text \<open>
  \<open>atoi\<close>: white space, a sign and the digits up to the first other character, read as a \<open>long\<close>
  (which saturates) and cut to an \<open>int\<close>.
\<close>

definition is_space :: "char \<Rightarrow> bool" where
  "is_space c \<longleftrightarrow> c \<in> {CHR '' '', CHR 0x09, CHR 0x0A, CHR 0x0B, CHR 0x0C, CHR 0x0D}"

definition is_digit :: "char \<Rightarrow> bool" where
  "is_digit c \<longleftrightarrow> 48 \<le> (of_char c :: nat) \<and> (of_char c :: nat) \<le> 57"

definition atoi :: "string \<Rightarrow> int" where
  "atoi s =
     (let s = dropWhile is_space s;
          negative = (s \<noteq> [] \<and> hd s = CHR ''-'');
          s = (if s \<noteq> [] \<and> (hd s = CHR ''-'' \<or> hd s = CHR ''+'') then tl s else s);
          n = int (decimal (takeWhile is_digit s));
          l = max (- (2 ^ 63)) (min (2 ^ 63 - 1) (if negative then - n else n))
      in sint (word_of_int l :: u32))"

section \<open>Options\<close>

record options =
  o_cluster_settings_file :: string
  o_log_to_file :: bool
  o_log_directory :: string
  o_log_level :: int
  o_pidfile :: string
  o_daemon :: bool

record proxy_options = options +
  o_bind_addr :: string

record resync_options = options +
  o_local_memcached_server :: string

definition proxy_long_opt :: "long_option list" where
  "proxy_long_opt =
     [(''cluster-settings-file'', required_argument, CLUSTER_SETTINGS_FILE),
      (''bind-addr'', required_argument, BIND_ADDR),
      (''log-file'', required_argument, LOG_FILE),
      (''log-level'', required_argument, LOG_LEVEL),
      (''pidfile'', required_argument, PIDFILE),
      (''daemon'', no_argument, DAEMON),
      (''help'', no_argument, HELP)]"

definition resync_long_opt :: "long_option list" where
  "resync_long_opt =
     [(''local-name'', required_argument, LOCAL_NAME),
      (''cluster-settings-file'', required_argument, CLUSTER_SETTINGS_FILE),
      (''log-file'', required_argument, LOG_FILE),
      (''log-level'', required_argument, LOG_LEVEL),
      (''pidfile'', required_argument, PIDFILE),
      (''daemon'', no_argument, DAEMON),
      (''help'', no_argument, HELP)]"

text \<open>The first pass over the arguments, the same in both programs: it looks at the logging options only.\<close>

definition logging_option :: "Options option \<times> string \<Rightarrow> 'a options_scheme \<Rightarrow> 'a options_scheme" where
  "logging_option r opts =
     (let (opt, optarg) = r
      in if opt = Some LOG_FILE then opts\<lparr>o_log_to_file := True, o_log_directory := optarg\<rparr>
         else if opt = Some LOG_LEVEL then opts\<lparr>o_log_level := atoi optarg\<rparr>
         else if opt = Some DAEMON then opts\<lparr>o_daemon := True\<rparr>
         else opts)"

definition proxy_init_logging_options :: "string list \<Rightarrow> proxy_options \<Rightarrow> proxy_options" where
  "proxy_init_logging_options args opts = fold logging_option (getopt_long proxy_long_opt args) opts"

definition resync_init_logging_options :: "string list \<Rightarrow> resync_options \<Rightarrow> resync_options" where
  "resync_init_logging_options args opts = fold logging_option (getopt_long resync_long_opt args) opts"

text \<open>
  The second pass. Help ends the process with code 0, an unknown option with code 2. The first
  pass may have moved the arguments that are no options to the end, which changes no result.
\<close>

fun proxy_option_loop :: "(Options option \<times> string) list \<Rightarrow> proxy_options \<Rightarrow> proxy_options outcome" where
  "proxy_option_loop [] opts = Returns opts"
| "proxy_option_loop ((opt, optarg) # rs) opts =
     (if opt = Some CLUSTER_SETTINGS_FILE then proxy_option_loop rs (opts\<lparr>o_cluster_settings_file := optarg\<rparr>)
      else if opt = Some BIND_ADDR then proxy_option_loop rs (opts\<lparr>o_bind_addr := optarg\<rparr>)
      else if opt = Some PIDFILE then proxy_option_loop rs (opts\<lparr>o_pidfile := optarg\<rparr>)
      else if opt = Some HELP then Exits 0
      else if opt = Some DAEMON \<or> opt = Some LOG_LEVEL \<or> opt = Some LOG_FILE then proxy_option_loop rs opts
      else Exits 2)"

definition proxy_init_options :: "string list \<Rightarrow> proxy_options \<Rightarrow> proxy_options outcome" where
  "proxy_init_options args opts = proxy_option_loop (getopt_long proxy_long_opt args) opts"

fun resync_option_loop :: "(Options option \<times> string) list \<Rightarrow> resync_options \<Rightarrow> resync_options outcome" where
  "resync_option_loop [] opts = Returns opts"
| "resync_option_loop ((opt, optarg) # rs) opts =
     (if opt = Some LOCAL_NAME then resync_option_loop rs (opts\<lparr>o_local_memcached_server := optarg\<rparr>)
      else if opt = Some CLUSTER_SETTINGS_FILE then resync_option_loop rs (opts\<lparr>o_cluster_settings_file := optarg\<rparr>)
      else if opt = Some PIDFILE then resync_option_loop rs (opts\<lparr>o_pidfile := optarg\<rparr>)
      else if opt = Some HELP then Exits 0
      else if opt = Some DAEMON \<or> opt = Some LOG_LEVEL \<or> opt = Some LOG_FILE then resync_option_loop rs opts
      else Exits 2)"

definition resync_init_options :: "string list \<Rightarrow> resync_options \<Rightarrow> resync_options outcome" where
  "resync_init_options args opts = resync_option_loop (getopt_long resync_long_opt args) opts"

section \<open>The main functions\<close>

text \<open>
  What \<open>main\<close> does, in order. \<open>New\<close> names the objects whose addresses the constructor keeps.
  \<open>Wait_for_termination\<close> is the wait for SIGTERM.
\<close>

datatype obj =
  O_alarm_manager | O_view_cfg | O_comm_alarm | O_memcached_comm_monitor | O_vbucket_alarm | O_backend | O_proxy_server
| O_astaire_resync_alarm | O_view | O_lvc | O_global_stats | O_per_conn_stats | O_astaire

datatype main_event =
  Daemon_log_setup bool string int bool
| Log_started
| Log_ended
| Log_invalid_option
| Lock_pidfile string
| Start_signal_handlers
| New obj "obj list"
| Read_config string
| Start_server string
| Wait_for_termination
| Delete obj

text \<open>
  The results of the calls to the libraries: whether the configuration file can be read, what
  locking the pidfile returns, and the system calls of \<open>ProxyServer::start\<close>.
\<close>

record main_env =
  me_read_config :: "string \<Rightarrow> bool"
  me_lock_and_write_pidfile :: "string \<Rightarrow> int"
  me_start :: start_env

definition default_options :: options where
  "default_options =
     \<lparr>o_cluster_settings_file = [], o_log_to_file = False, o_log_directory = [], o_log_level = 0, o_pidfile = [],
      o_daemon = False\<rparr>"

definition default_proxy_options :: proxy_options where
  "default_proxy_options = options.extend default_options (proxy_options.fields [])"

definition default_resync_options :: resync_options where
  "default_resync_options = options.extend default_options (resync_options.fields [])"

lemmas default_options_defs =
  default_proxy_options_def default_resync_options_def default_options_def options.defs proxy_options.defs
  resync_options.defs

definition log_setup :: "'a options_scheme \<Rightarrow> main_event" where
  "log_setup opts = Daemon_log_setup (o_daemon opts) (o_log_directory opts) (o_log_level opts) (o_log_to_file opts)"

text \<open>Locking the pidfile, if there is one: the events, and whether to go on.\<close>

definition lock_pidfile :: "main_env \<Rightarrow> string \<Rightarrow> main_event list \<times> bool" where
  "lock_pidfile E pidfile =
     (if pidfile \<noteq> [] then ([Lock_pidfile pidfile], me_lock_and_write_pidfile E pidfile \<noteq> -1) else ([], True))"

text \<open>
  The course of \<open>main\<close>, the same in both programs: the options of the first pass, the outcome of
  the second, whether the options that must be given are, and what comes after the pidfile.
\<close>

definition main_body :: "main_env \<Rightarrow> 'a options_scheme \<Rightarrow> 'a options_scheme outcome \<Rightarrow> ('a options_scheme \<Rightarrow> bool) \<Rightarrow>
    ('a options_scheme \<Rightarrow> main_event list \<times> int) \<Rightarrow> main_event list \<times> int" where
  "main_body E opts parsed complete run =
     (let es = [log_setup opts, Log_started]
      in case parsed of
           Returns opts \<Rightarrow>
             if \<not> complete opts then (es, 2)
             else
               let (locked, ok) = lock_pidfile E (o_pidfile opts)
               in if \<not> ok then (es @ locked, 2)
                  else
                    let (ran, rc) = run opts in (es @ locked @ ran, rc)
         | Exits rc \<Rightarrow> (es @ [if rc = 0 then Log_ended else Log_invalid_option], rc)
         | _ \<Rightarrow> (es, 1))"

definition proxy_shutdown :: "main_event list" where
  "proxy_shutdown =
     [Log_ended, Delete O_proxy_server, Delete O_memcached_comm_monitor, Delete O_vbucket_alarm, Delete O_backend,
      Delete O_alarm_manager, Delete O_view_cfg]"

text \<open>From the signal handlers on: the objects are created and the server is started.\<close>

definition proxy_run :: "main_env \<Rightarrow> proxy_options \<Rightarrow> main_event list \<times> int" where
  "proxy_run E opts =
     (let es = [Start_signal_handlers, New O_alarm_manager [], New O_view_cfg [], Read_config (o_cluster_settings_file opts)]
      in if \<not> me_read_config E (o_cluster_settings_file opts) then (es, 3)
         else
           let es = es @
             [New O_comm_alarm [O_alarm_manager], New O_memcached_comm_monitor [O_comm_alarm],
              New O_vbucket_alarm [O_alarm_manager],
              New O_backend [O_view_cfg, O_memcached_comm_monitor, O_vbucket_alarm], New O_proxy_server [O_backend],
              Start_server (o_bind_addr opts)]
           in if \<not> fst (start (me_start E) (o_bind_addr opts)) then (es, 4)
              else (es @ [Wait_for_termination] @ proxy_shutdown, 0))"

definition proxy_complete :: "proxy_options \<Rightarrow> bool" where
  "proxy_complete opts \<longleftrightarrow> o_cluster_settings_file opts \<noteq> []"

definition proxy_parse :: "string list \<Rightarrow> proxy_options outcome" where
  "proxy_parse args = proxy_init_options args (proxy_init_logging_options args default_proxy_options)"

definition proxy_main :: "main_env \<Rightarrow> string list \<Rightarrow> main_event list \<times> int" where
  "proxy_main E args =
     main_body E (proxy_init_logging_options args default_proxy_options) (proxy_parse args)
       proxy_complete (proxy_run E)"

definition resync_shutdown :: "main_event list" where
  "resync_shutdown =
     [Log_ended, Delete O_per_conn_stats, Delete O_global_stats, Delete O_lvc, Delete O_astaire, Delete O_alarm_manager,
      Delete O_view_cfg, Delete O_view]"

definition resync_run :: "main_env \<Rightarrow> resync_options \<Rightarrow> main_event list \<times> int" where
  "resync_run E opts =
     (let es = [Start_signal_handlers, New O_alarm_manager [], New O_astaire_resync_alarm [O_alarm_manager],
                New O_view [], New O_view_cfg [], Read_config (o_cluster_settings_file opts)]
      in if \<not> me_read_config E (o_cluster_settings_file opts) then (es, 3)
         else
           (es @
             [New O_lvc [], New O_global_stats [O_lvc], New O_per_conn_stats [O_lvc],
              New O_astaire [O_view, O_view_cfg, O_astaire_resync_alarm, O_global_stats, O_per_conn_stats],
              Wait_for_termination] @ resync_shutdown, 0))"

definition resync_complete :: "resync_options \<Rightarrow> bool" where
  "resync_complete opts \<longleftrightarrow> o_local_memcached_server opts \<noteq> [] \<and> o_cluster_settings_file opts \<noteq> []"

definition resync_parse :: "string list \<Rightarrow> resync_options outcome" where
  "resync_parse args = resync_init_options args (resync_init_logging_options args default_resync_options)"

definition resync_main :: "main_env \<Rightarrow> string list \<Rightarrow> main_event list \<times> int" where
  "resync_main E args =
     main_body E (resync_init_logging_options args default_resync_options) (resync_parse args)
       resync_complete (resync_run E)"

section \<open>Command lines\<close>

text \<open>The command line that stands for given options.\<close>

definition logging_args :: "'a options_scheme \<Rightarrow> string list" where
  "logging_args opts =
     (if o_log_to_file opts then [''--log-file='' @ o_log_directory opts] else []) @
     [''--log-level='' @ to_string_int (o_log_level opts)] @ (if o_daemon opts then [''--daemon''] else [])"

definition proxy_args :: "proxy_options \<Rightarrow> string list" where
  "proxy_args opts =
     [''--cluster-settings-file='' @ o_cluster_settings_file opts, ''--bind-addr='' @ o_bind_addr opts,
      ''--pidfile='' @ o_pidfile opts] @ logging_args opts"

definition resync_args :: "resync_options \<Rightarrow> string list" where
  "resync_args opts =
     [''--local-name='' @ o_local_memcached_server opts, ''--cluster-settings-file='' @ o_cluster_settings_file opts,
      ''--pidfile='' @ o_pidfile opts] @ logging_args opts"

text \<open>Options that a command line can express: the directory is set only along with \<open>log_to_file\<close>.\<close>

definition expressible :: "'a options_scheme \<Rightarrow> bool" where
  "expressible opts \<longleftrightarrow> (\<not> o_log_to_file opts \<longrightarrow> o_log_directory opts = []) \<and>
     - (2 ^ 31) \<le> o_log_level opts \<and> o_log_level opts < 2 ^ 31"

lemma split_eq_append: "CHR ''='' \<notin> set name \<Longrightarrow> split_eq (name @ CHR ''='' # val) = (name, Some val)"
  by (induction name) (auto simp: split_eq_def Let_def)

lemma split_eq_plain: "CHR ''='' \<notin> set name \<Longrightarrow> split_eq name = (name, None)"
  by (induction name) (auto simp: split_eq_def Let_def)

lemma find_option:
  "(name, x) \<in> set long_opt \<Longrightarrow> distinct (map fst long_opt) \<Longrightarrow>
     List.find (\<lambda>(n, _). n = name) long_opt = Some (name, x)"
  by (induction long_opt) (auto simp: rev_image_eqI)

lemma getopt_long_val:
  assumes "(name, required_argument, v) \<in> set long_opt" "distinct (map fst long_opt)" "CHR ''='' \<notin> set name"
  shows "getopt_long long_opt ((''--'' @ name @ CHR ''='' # val) # args) = (Some v, val) # getopt_long long_opt args"
  using find_option [OF assms(1,2)] split_eq_append [OF assms(3)]
  by (simp add: getopt_long.simps(2) match_long_def)

lemma getopt_long_flag:
  assumes "(name, no_argument, v) \<in> set long_opt" "distinct (map fst long_opt)" "CHR ''='' \<notin> set name" "name \<noteq> []"
  shows "getopt_long long_opt ((''--'' @ name) # args) = (Some v, []) # getopt_long long_opt args"
  using find_option [OF assms(1,2)] split_eq_plain [OF assms(3)] assms(4)
  by (simp add: getopt_long.simps(2) match_long_def)

text \<open>\<open>atoi\<close> reads back what \<open>std::to_string\<close> prints.\<close>

lemma is_digit_digit_char: "d < 10 \<Longrightarrow> is_digit (digit_char d)"
  by (simp add: is_digit_def digit_char_def)

lemma digits_to_string: "list_all is_digit (to_string n) \<and> to_string n \<noteq> []"
proof (induction n rule: to_string.induct)
  case (1 n)
  then show ?case by (cases "n < 10") (simp_all add: to_string.simps [of n] is_digit_digit_char)
qed

lemma takeWhile_digits: "list_all is_digit s \<Longrightarrow> takeWhile is_digit s = s"
  by (induction s) auto

lemma digit_no_space: "is_digit c \<Longrightarrow> \<not> is_space c \<and> c \<noteq> CHR ''-'' \<and> c \<noteq> CHR ''+''"
  by (auto simp: is_digit_def is_space_def)

lemma atoi_digits:
  assumes "list_all is_digit s" "s \<noteq> []" "decimal s < 2 ^ 62"
  shows "atoi s = sint (word_of_int (int (decimal s)) :: u32)"
    and "atoi (CHR ''-'' # s) = sint (word_of_int (- int (decimal s)) :: u32)"
proof -
  have hd: "\<not> is_space (hd s)" "hd s \<noteq> CHR ''-''" "hd s \<noteq> CHR ''+''"
    using assms(1,2) digit_no_space [of "hd s"] by (cases s; simp)+
  have "dropWhile is_space s = s" using hd(1) assms(2) by (cases s) auto
  moreover have "\<not> is_space CHR ''-''" by (simp add: is_space_def)
  ultimately show "atoi s = sint (word_of_int (int (decimal s)) :: u32)"
    "atoi (CHR ''-'' # s) = sint (word_of_int (- int (decimal s)) :: u32)"
    using hd assms by (simp_all add: atoi_def Let_def takeWhile_digits [OF assms(1)] min_def max_def)
qed

lemma atoi_to_string:
  assumes "- (2 ^ 31) \<le> i" "i < 2 ^ 31"
  shows "atoi (to_string_int i) = i"
proof -
  have "sint (word_of_int i :: u32) = i" using assms by (rule sint_word_of_int_u32)
  moreover have "nat \<bar>i\<bar> < 2 ^ 62" using assms by simp
  ultimately show ?thesis
    using digits_to_string [of "nat \<bar>i\<bar>"] atoi_digits [of "to_string (nat \<bar>i\<bar>)"]
    by (simp add: to_string_int_def decimal_to_string abs_if split: if_splits)
qed

text \<open>The options of both programs, by name.\<close>

lemma proxy_options_by_name:
  "getopt_long proxy_long_opt ((''--cluster-settings-file='' @ x) # args) = (Some CLUSTER_SETTINGS_FILE, x) # getopt_long proxy_long_opt args"
  "getopt_long proxy_long_opt ((''--bind-addr='' @ x) # args) = (Some BIND_ADDR, x) # getopt_long proxy_long_opt args"
  "getopt_long proxy_long_opt ((''--pidfile='' @ x) # args) = (Some PIDFILE, x) # getopt_long proxy_long_opt args"
  "getopt_long proxy_long_opt ((''--log-file='' @ x) # args) = (Some LOG_FILE, x) # getopt_long proxy_long_opt args"
  "getopt_long proxy_long_opt ((''--log-level='' @ x) # args) = (Some LOG_LEVEL, x) # getopt_long proxy_long_opt args"
  "getopt_long proxy_long_opt (''--daemon'' # args) = (Some DAEMON, []) # getopt_long proxy_long_opt args"
  using getopt_long_val [of "''cluster-settings-file''" CLUSTER_SETTINGS_FILE proxy_long_opt x args]
    getopt_long_val [of "''bind-addr''" BIND_ADDR proxy_long_opt x args]
    getopt_long_val [of "''pidfile''" PIDFILE proxy_long_opt x args]
    getopt_long_val [of "''log-file''" LOG_FILE proxy_long_opt x args]
    getopt_long_val [of "''log-level''" LOG_LEVEL proxy_long_opt x args]
    getopt_long_flag [of "''daemon''" DAEMON proxy_long_opt args]
  by (simp_all add: proxy_long_opt_def)

lemma resync_options_by_name:
  "getopt_long resync_long_opt ((''--local-name='' @ x) # args) = (Some LOCAL_NAME, x) # getopt_long resync_long_opt args"
  "getopt_long resync_long_opt ((''--cluster-settings-file='' @ x) # args) = (Some CLUSTER_SETTINGS_FILE, x) # getopt_long resync_long_opt args"
  "getopt_long resync_long_opt ((''--pidfile='' @ x) # args) = (Some PIDFILE, x) # getopt_long resync_long_opt args"
  "getopt_long resync_long_opt ((''--log-file='' @ x) # args) = (Some LOG_FILE, x) # getopt_long resync_long_opt args"
  "getopt_long resync_long_opt ((''--log-level='' @ x) # args) = (Some LOG_LEVEL, x) # getopt_long resync_long_opt args"
  "getopt_long resync_long_opt (''--daemon'' # args) = (Some DAEMON, []) # getopt_long resync_long_opt args"
  using getopt_long_val [of "''local-name''" LOCAL_NAME resync_long_opt x args]
    getopt_long_val [of "''cluster-settings-file''" CLUSTER_SETTINGS_FILE resync_long_opt x args]
    getopt_long_val [of "''pidfile''" PIDFILE resync_long_opt x args]
    getopt_long_val [of "''log-file''" LOG_FILE resync_long_opt x args]
    getopt_long_val [of "''log-level''" LOG_LEVEL resync_long_opt x args]
    getopt_long_flag [of "''daemon''" DAEMON resync_long_opt args]
  by (simp_all add: resync_long_opt_def)

lemmas options_by_name =
  proxy_options_by_name [unfolded append_Cons append_Nil] resync_options_by_name [unfolded append_Cons append_Nil]

definition logging_results :: "'a options_scheme \<Rightarrow> (Options option \<times> string) list" where
  "logging_results opts =
     (if o_log_to_file opts then [(Some LOG_FILE, o_log_directory opts)] else []) @
     [(Some LOG_LEVEL, to_string_int (o_log_level opts))] @ (if o_daemon opts then [(Some DAEMON, [])] else [])"

lemma getopt_args:
  "getopt_long proxy_long_opt (proxy_args po) =
     [(Some CLUSTER_SETTINGS_FILE, o_cluster_settings_file po), (Some BIND_ADDR, o_bind_addr po),
      (Some PIDFILE, o_pidfile po)] @ logging_results po"
  "getopt_long resync_long_opt (resync_args ro) =
     [(Some LOCAL_NAME, o_local_memcached_server ro), (Some CLUSTER_SETTINGS_FILE, o_cluster_settings_file ro),
      (Some PIDFILE, o_pidfile ro)] @ logging_results ro"
  by (simp_all add: proxy_args_def resync_args_def logging_args_def logging_results_def options_by_name)

lemma fold_logging_results:
  assumes "expressible (opts :: 'a options_scheme)"
  shows "fold logging_option (logging_results opts) (opts'\<lparr>o_log_to_file := False, o_log_directory := [], o_daemon := False\<rparr>) =
    opts'\<lparr>o_log_to_file := o_log_to_file opts, o_log_directory := o_log_directory opts, o_log_level := o_log_level opts,
      o_daemon := o_daemon opts\<rparr>"
  using assms by (cases "o_log_to_file opts"; cases "o_daemon opts")
    (simp_all add: logging_results_def logging_option_def expressible_def atoi_to_string)

section \<open>Lifetimes\<close>

text \<open>
  The objects alive, each with the objects whose addresses it keeps. \<open>dangling\<close> lists the objects
  that are deleted while another one keeps their address, with that other one.
\<close>

fun dangling :: "(obj \<times> obj list) list \<Rightarrow> main_event list \<Rightarrow> (obj \<times> obj) list" where
  "dangling live [] = []"
| "dangling live (New ob us # es) = dangling ((ob, us) # live) es"
| "dangling live (Delete ob # es) =
     map (\<lambda>(user, _). (ob, user)) (filter (\<lambda>(_, us). ob \<in> set us) live) @
     dangling (filter (\<lambda>(l, _). l \<noteq> ob) live) es"
| "dangling live (_ # es) = dangling live es"

text \<open>Every object is created after those whose addresses it keeps.\<close>

fun created_in_order :: "obj list \<Rightarrow> main_event list \<Rightarrow> bool" where
  "created_in_order live [] \<longleftrightarrow> True"
| "created_in_order live (New ob us # es) \<longleftrightarrow> set us \<subseteq> set live \<and> created_in_order (ob # live) es"
| "created_in_order live (Delete ob # es) \<longleftrightarrow> created_in_order (removeAll ob live) es"
| "created_in_order live (_ # es) \<longleftrightarrow> created_in_order live es"

lemma proxy_run_events:
  "Wait_for_termination \<in> set (fst (proxy_run E opts)) \<longleftrightarrow>
     me_read_config E (o_cluster_settings_file opts) \<and> fst (start (me_start E) (o_bind_addr opts))"
  "snd (proxy_run E opts) = 0 \<longleftrightarrow> Wait_for_termination \<in> set (fst (proxy_run E opts))"
  "created_in_order [] (fst (proxy_run E opts))"
  by (simp_all add: proxy_run_def proxy_shutdown_def Let_def)

lemma resync_run_events:
  "Wait_for_termination \<in> set (fst (resync_run E opts)) \<longleftrightarrow> me_read_config E (o_cluster_settings_file opts)"
  "snd (resync_run E opts) = 0 \<longleftrightarrow> Wait_for_termination \<in> set (fst (resync_run E opts))"
  "created_in_order [] (fst (resync_run E opts))"
  by (simp_all add: resync_run_def resync_shutdown_def Let_def)

text \<open>The last event shows what the code is about.\<close>

lemma run_codes:
  "fst (proxy_run E po) \<noteq> []" "snd (proxy_run E po) \<in> {0, 3, 4}"
  "snd (proxy_run E po) = 3 \<longleftrightarrow> (\<exists>f. last (fst (proxy_run E po)) = Read_config f)"
  "snd (proxy_run E po) = 4 \<longleftrightarrow> (\<exists>a. last (fst (proxy_run E po)) = Start_server a)"
  "fst (resync_run E ro) \<noteq> []" "snd (resync_run E ro) \<in> {0, 3}"
  "snd (resync_run E ro) = 3 \<longleftrightarrow> (\<exists>f. last (fst (resync_run E ro)) = Read_config f)"
  by (simp_all add: proxy_run_def proxy_shutdown_def resync_run_def resync_shutdown_def Let_def)

lemmas parse_defs' =
  proxy_parse_def resync_parse_def proxy_init_options_def resync_init_options_def
  proxy_init_logging_options_def resync_init_logging_options_def

lemma proxy_option_loop_cases:
  "(\<exists>opts'. proxy_option_loop rs opts = Returns opts') \<or> proxy_option_loop rs opts = Exits 0 \<or>
     proxy_option_loop rs opts = Exits 2"
  by (induction rs opts rule: proxy_option_loop.induct) auto

lemma resync_option_loop_cases:
  "(\<exists>opts'. resync_option_loop rs opts = Returns opts') \<or> resync_option_loop rs opts = Exits 0 \<or>
     resync_option_loop rs opts = Exits 2"
  by (induction rs opts rule: resync_option_loop.induct) auto

lemmas main_body_defs = main_body_def lock_pidfile_def log_setup_def Let_def split_def

text \<open>What \<open>main_body\<close> relies on, and what it makes of it.\<close>

locale main_program =
  fixes parse :: "string list \<Rightarrow> 'a options_scheme outcome"
    and run :: "main_env \<Rightarrow> 'a options_scheme \<Rightarrow> main_event list \<times> int"
  assumes parse_cases: "(\<exists>opts. parse args = Returns opts) \<or> parse args = Exits 0 \<or> parse args = Exits 2"
    and run_code: "snd (run E opts) = 0 \<longleftrightarrow> Wait_for_termination \<in> set (fst (run E opts))"
    and run_order: "created_in_order [] (fst (run E opts))"
begin

lemma started_iff:
  "Wait_for_termination \<in> set (fst (main_body E opts0 (parse args) complete (run E))) \<longleftrightarrow>
     (\<exists>opts. parse args = Returns opts \<and> complete opts \<and>
        (o_pidfile opts = [] \<or> me_lock_and_write_pidfile E (o_pidfile opts) \<noteq> -1) \<and>
        Wait_for_termination \<in> set (fst (run E opts)))"
  using parse_cases [of args] by (cases "parse args") (simp_all add: main_body_defs split: if_split)

lemma exit_code:
  "snd (main_body E opts0 (parse args) complete (run E)) = 0 \<longleftrightarrow>
     Wait_for_termination \<in> set (fst (main_body E opts0 (parse args) complete (run E))) \<or> parse args = Exits 0"
  using parse_cases [of args]
  by (cases "parse args") (simp_all add: main_body_defs run_code split: if_split)

lemma ended_cases:
  obtains (ran) pre opts where "main_body E opts0 (parse args) complete (run E) = (pre @ fst (run E opts), snd (run E opts))"
  | (not_run) "snd (main_body E opts0 (parse args) complete (run E)) \<in> {0, 2}"
    "last (fst (main_body E opts0 (parse args) complete (run E))) \<in> range Lock_pidfile \<union> {Log_started, Log_ended, Log_invalid_option}"
proof (cases "parse args")
  case (Returns opts)
  show thesis
  proof (cases "complete opts \<and> snd (lock_pidfile E (o_pidfile opts))")
    case True
    with Returns show thesis
      by (intro ran [of "[log_setup opts0, Log_started] @ fst (lock_pidfile E (o_pidfile opts))" opts])
        (simp add: main_body_def Let_def split_def)
  next
    case False
    with Returns show thesis by (intro not_run) (auto simp: main_body_defs)
  qed
qed (use parse_cases [of args] not_run in \<open>auto simp: main_body_defs\<close>)

lemma order: "created_in_order [] (fst (main_body E opts0 (parse args) complete (run E)))"
  using parse_cases [of args] run_order
  by (cases "parse args") (simp_all add: main_body_defs split: if_split)

lemma started_run:
  assumes "Wait_for_termination \<in> set (fst (main_body E opts0 (parse args) complete (run E)))"
  obtains opts where "Wait_for_termination \<in> set (fst (run E opts))"
    "dangling [] (fst (main_body E opts0 (parse args) complete (run E))) = dangling [] (fst (run E opts))"
  using assms parse_cases [of args]
  by (cases "parse args") (simp_all add: main_body_defs split: if_split_asm)

end

interpretation proxy: main_program proxy_parse proxy_run
  by unfold_locales (simp_all add: proxy_parse_def proxy_init_options_def proxy_option_loop_cases proxy_run_events)

interpretation resync: main_program resync_parse resync_run
  by unfold_locales (simp_all add: resync_parse_def resync_init_options_def resync_option_loop_cases resync_run_events)

lemma parse_args:
  assumes "expressible po" "expressible ro"
  shows "proxy_parse (proxy_args po) = Returns po" "resync_parse (resync_args ro) = Returns ro"
proof -
  have "fold logging_option (getopt_long proxy_long_opt (proxy_args po)) default_proxy_options =
      default_proxy_options\<lparr>o_log_to_file := o_log_to_file po, o_log_directory := o_log_directory po,
        o_log_level := o_log_level po, o_daemon := o_daemon po\<rparr>"
    "fold logging_option (getopt_long resync_long_opt (resync_args ro)) default_resync_options =
      default_resync_options\<lparr>o_log_to_file := o_log_to_file ro, o_log_directory := o_log_directory ro,
        o_log_level := o_log_level ro, o_daemon := o_daemon ro\<rparr>"
    using fold_logging_results [OF assms(1), of default_proxy_options] fold_logging_results [OF assms(2), of default_resync_options]
    by (simp_all add: getopt_args logging_option_def default_options_defs)
  then show "proxy_parse (proxy_args po) = Returns po" "resync_parse (resync_args ro) = Returns ro"
    by (cases po; cases ro; simp add: parse_defs' getopt_args
        logging_results_def default_options_defs)+
qed

section \<open>Properties\<close>

text \<open>
  C32: Both programs read back from a command line the options it was made for: settings file,
  bind address or local name, pidfile, log directory, log level and daemon flag.
\<close>

theorem options_roundtrip:
  assumes "expressible po" "expressible ro"
  shows "proxy_parse (proxy_args po) = Returns po \<and> resync_parse (resync_args ro) = Returns ro"
  using parse_args [OF assms] by simp

definition wit_proxy_options :: proxy_options where
  "wit_proxy_options =
     \<lparr>o_cluster_settings_file = ''c'', o_log_to_file = True, o_log_directory = ''d'', o_log_level = - 5, o_pidfile = [],
      o_daemon = True, o_bind_addr = ''::''\<rparr>"

definition wit_resync_options :: resync_options where
  "wit_resync_options =
     \<lparr>o_cluster_settings_file = ''c'', o_log_to_file = False, o_log_directory = [], o_log_level = 4, o_pidfile = ''p'',
      o_daemon = False, o_local_memcached_server = ''l''\<rparr>"

lemmas wit_options_defs = wit_proxy_options_def wit_resync_options_def

theorem options_roundtrip_witness:
  "proxy_parse (proxy_args wit_proxy_options) = Returns wit_proxy_options \<and>
   resync_parse (resync_args wit_resync_options) = Returns wit_resync_options"
  by (rule options_roundtrip) (simp_all add: expressible_def wit_options_defs)

definition wit_main_env :: main_env where
  "wit_main_env =
     \<lparr>me_read_config = \<lambda>_. True, me_lock_and_write_pidfile = \<lambda>_. 0,
      me_start = \<lparr>se_inet_pton = \<lambda>_ _. 1, se_socket = 3, se_setsockopt = 0, se_bind = 0, se_listen = 0, se_create = 0\<rparr>\<rparr>"

lemma wit_parse:
  "proxy_parse (proxy_args wit_proxy_options) = Returns wit_proxy_options"
  "resync_parse (resync_args wit_resync_options) = Returns wit_resync_options"
proof -
  have "expressible wit_proxy_options" "expressible wit_resync_options"
    by (simp_all add: expressible_def wit_options_defs)
  then show "proxy_parse (proxy_args wit_proxy_options) = Returns wit_proxy_options"
      "resync_parse (resync_args wit_resync_options) = Returns wit_resync_options"
    by (rule parse_args)+
qed

lemma wit_started:
  "Wait_for_termination \<in> set (fst (proxy_main wit_main_env (proxy_args wit_proxy_options)))"
  "Wait_for_termination \<in> set (fst (resync_main wit_main_env (resync_args wit_resync_options)))"
  unfolding proxy_main_def resync_main_def proxy.started_iff resync.started_iff proxy_run_events resync_run_events
  by (simp_all add: wit_parse)
    (simp_all add: wit_main_env_def wit_options_defs proxy_complete_def resync_complete_def start_def
      parse_bind_addr_def Let_def)

text \<open>What \<open>ProxyServer::start\<close> takes for a success: it looks for negative results only.\<close>

lemma start_iff:
  "fst (start S bind_addr) \<longleftrightarrow> parse_bind_addr S bind_addr \<noteq> None \<and>
     0 \<le> se_socket S \<and> 0 \<le> se_setsockopt S \<and> 0 \<le> se_bind S \<and> 0 \<le> se_listen S \<and> 0 \<le> se_create S"
  by (auto simp: start_def Let_def split: option.splits)

text \<open>
  C33: What brings the programs to their wait for the signal to terminate, and what their exit
  codes tell. Both need good options, a settings file that is named and can be read, and
  a pidfile, if there is one, that can be locked; Astaire needs the local name too, and Rogers an
  address that can be parsed and no negative result of the calls that start the server. The
  code is 0 exactly after that wait or after the help text, otherwise it is 2 for options and
  pidfile, 3 for the settings file and 4 for the server. What the codes do not tell is whether
  the threads were created: a positive result of \<open>pthread_create\<close>, which is how it reports an
  error, counts as a success in Rogers, and Astaire's constructor does not look at it. Objects
  are created after those they refer to.
\<close>

theorem startup_and_exit_codes:
  "(Wait_for_termination \<in> set (fst (proxy_main E args)) \<longleftrightarrow>
     (\<exists>opts. proxy_parse args = Returns opts \<and>
        o_cluster_settings_file opts \<noteq> [] \<and> (o_pidfile opts = [] \<or> me_lock_and_write_pidfile E (o_pidfile opts) \<noteq> -1) \<and>
        me_read_config E (o_cluster_settings_file opts) \<and> parse_bind_addr (me_start E) (o_bind_addr opts) \<noteq> None \<and>
        0 \<le> se_socket (me_start E) \<and> 0 \<le> se_setsockopt (me_start E) \<and> 0 \<le> se_bind (me_start E) \<and>
        0 \<le> se_listen (me_start E) \<and> 0 \<le> se_create (me_start E))) \<and>
   (Wait_for_termination \<in> set (fst (resync_main E args)) \<longleftrightarrow>
     (\<exists>opts. resync_parse args = Returns opts \<and>
        o_local_memcached_server opts \<noteq> [] \<and> o_cluster_settings_file opts \<noteq> [] \<and>
        (o_pidfile opts = [] \<or> me_lock_and_write_pidfile E (o_pidfile opts) \<noteq> -1) \<and>
        me_read_config E (o_cluster_settings_file opts))) \<and>
   (snd (proxy_main E args) = 0 \<longleftrightarrow> Wait_for_termination \<in> set (fst (proxy_main E args)) \<or>
     proxy_parse args = Exits 0) \<and>
   (snd (resync_main E args) = 0 \<longleftrightarrow> Wait_for_termination \<in> set (fst (resync_main E args)) \<or>
     resync_parse args = Exits 0) \<and>
   (snd (proxy_main E args) = 3 \<longleftrightarrow> (\<exists>f. last (fst (proxy_main E args)) = Read_config f)) \<and>
   (snd (resync_main E args) = 3 \<longleftrightarrow> (\<exists>f. last (fst (resync_main E args)) = Read_config f)) \<and>
   (snd (proxy_main E args) = 4 \<longleftrightarrow> (\<exists>a. last (fst (proxy_main E args)) = Start_server a)) \<and>
   snd (proxy_main E args) \<in> {0, 2, 3, 4} \<and> snd (resync_main E args) \<in> {0, 2, 3} \<and>
   created_in_order [] (fst (proxy_main E args)) \<and> created_in_order [] (fst (resync_main E args))"
proof -
  have "(snd (proxy_main E args) = 3 \<longleftrightarrow> (\<exists>f. last (fst (proxy_main E args)) = Read_config f)) \<and>
      (snd (proxy_main E args) = 4 \<longleftrightarrow> (\<exists>a. last (fst (proxy_main E args)) = Start_server a)) \<and>
      snd (proxy_main E args) \<in> {0, 2, 3, 4}"
  proof (cases rule: proxy.ended_cases [of E "proxy_init_logging_options args default_proxy_options" args proxy_complete])
    case (ran pre opts)
    with run_codes(1-4) [of E opts] show ?thesis by (auto simp: proxy_main_def)
  qed (auto simp: proxy_main_def)
  moreover have "(snd (resync_main E args) = 3 \<longleftrightarrow> (\<exists>f. last (fst (resync_main E args)) = Read_config f)) \<and>
      snd (resync_main E args) \<in> {0, 2, 3}"
  proof (cases rule: resync.ended_cases [of E "resync_init_logging_options args default_resync_options" args resync_complete])
    case (ran pre opts)
    with run_codes(5-7) [of E opts] show ?thesis by (auto simp: resync_main_def)
  qed (auto simp: resync_main_def)
  moreover note proxy.started_iff [of E "proxy_init_logging_options args default_proxy_options" args proxy_complete,
      folded proxy_main_def, unfolded proxy_run_events start_iff proxy_complete_def]
    resync.started_iff [of E "resync_init_logging_options args default_resync_options" args resync_complete,
      folded resync_main_def, unfolded resync_run_events resync_complete_def conj_assoc]
    proxy.exit_code [of E "proxy_init_logging_options args default_proxy_options" args proxy_complete, folded proxy_main_def]
    resync.exit_code [of E "resync_init_logging_options args default_resync_options" args resync_complete, folded resync_main_def]
    proxy.order [of E "proxy_init_logging_options args default_proxy_options" args proxy_complete, folded proxy_main_def]
    resync.order [of E "resync_init_logging_options args default_resync_options" args resync_complete, folded resync_main_def]
  ultimately show ?thesis by (elim conjE) (intro conjI; assumption)
qed

theorem startup_and_exit_codes_witness:
  "snd (proxy_main wit_main_env (proxy_args wit_proxy_options)) = 0 \<and>
   snd (resync_main wit_main_env (resync_args wit_resync_options)) = 0 \<and>
   snd (proxy_main (wit_main_env\<lparr>me_read_config := \<lambda>_. False\<rparr>) (proxy_args wit_proxy_options)) \<noteq> 0"
proof -
  let ?E = "wit_main_env\<lparr>me_read_config := \<lambda>_. False\<rparr>" and ?args = "proxy_args wit_proxy_options"
  have "proxy_parse ?args = Returns wit_proxy_options" by (rule wit_parse)
  moreover from this have "Wait_for_termination \<notin> set (fst (proxy_main ?E ?args))"
    using startup_and_exit_codes [of ?E ?args] by simp
  ultimately show ?thesis
    using startup_and_exit_codes [of ?E ?args] startup_and_exit_codes [of wit_main_env ?args]
      startup_and_exit_codes [of wit_main_env "resync_args wit_resync_options"] wit_started
    by (intro conjI; simp only: refl outcome.distinct; blast)
qed

text \<open>
  On a regular shutdown both programs delete objects that others still refer to: the proxy
  the communication monitor and the vbucket alarm before the backend that informs them, and
  the resync program both recorders of statistics before the object whose control thread writes
  to them.
\<close>

lemma shutdown_deletes_objects_in_use:
  assumes "Wait_for_termination \<in> set (fst (proxy_main E args))"
    and "Wait_for_termination \<in> set (fst (resync_main E args'))"
  shows "{(O_memcached_comm_monitor, O_backend), (O_vbucket_alarm, O_backend)} \<subseteq>
      set (dangling [] (fst (proxy_main E args))) \<and>
    {(O_per_conn_stats, O_astaire), (O_global_stats, O_astaire)} \<subseteq> set (dangling [] (fst (resync_main E args')))"
proof -
  obtain po where "Wait_for_termination \<in> set (fst (proxy_run E po))"
      "dangling [] (fst (proxy_main E args)) = dangling [] (fst (proxy_run E po))"
    using proxy.started_run assms(1) unfolding proxy_main_def by metis
  moreover obtain ro where "Wait_for_termination \<in> set (fst (resync_run E ro))"
      "dangling [] (fst (resync_main E args')) = dangling [] (fst (resync_run E ro))"
    using resync.started_run assms(2) unfolding resync_main_def by metis
  ultimately show ?thesis
    by (simp add: proxy_run_def proxy_shutdown_def resync_run_def resync_shutdown_def Let_def split: if_splits)
qed

end
