(* ===== verification/Tap_Merge.thy ===== *)
theory Tap_Merge
  imports Tap
begin

text \<open>
  What a tap does to the records of the local memcached. The documented behaviour of GET, ADD
  and REPLACE-with-CAS is a hypothesis on the local memcached (\<open>memcached_contract\<close>). Under
  it the tap thread refines an abstract merge: every record of the stream that lies in the
  tapped vbuckets is merged into the store, the newer timestamp winning.
\<close>

section \<open>The documented behaviour of memcached\<close>

record item =
  i_value :: bytes
  i_flags :: u32
  i_expiry :: u32
  i_cas :: u64

text \<open>The socket yields the bytes of one response, in chunks of any size.\<close>

definition delivers :: "recv_event list \<Rightarrow> message \<Rightarrow> bool" where
  "delivers evs rsp \<longleftrightarrow>
     (\<exists>chunks. evs = map Recv chunks \<and> [] \<notin> set chunks \<and> concat chunks = to_wire rsp)"

definition get_hit :: "item \<Rightarrow> message" where
  "get_hit it = new_GetRsp (result_u16 NO_ERROR) 0 (i_cas it) (i_value it) (i_flags it) []"

definition get_miss :: "bytes \<Rightarrow> message" where
  "get_miss body = new_GetRsp (result_u16 KEY_NOT_FOUND) 0 0 body 0 []"

definition write_rsp :: "OpCode \<Rightarrow> u16 \<Rightarrow> u64 \<Rightarrow> message" where
  "write_rsp opc status cas = SetAddReplaceRsp (base opc [] 0 cas) status"

text \<open>The store after a write of a record under a fresh CAS value.\<close>

definition stores :: "(bytes \<rightharpoonup> item) \<Rightarrow> (bytes \<rightharpoonup> item) \<Rightarrow> bytes \<Rightarrow> bytes \<Rightarrow> u32 \<Rightarrow> u32 \<Rightarrow> bool" where
  "stores st st' key val flags expiry \<longleftrightarrow>
     (\<exists>cas. st' = st(key \<mapsto> \<lparr>i_value = val, i_flags = flags, i_expiry = expiry, i_cas = cas\<rparr>))"

text \<open>Records that fit a message, and stores that hold only such records.\<close>

definition fits :: "bytes \<Rightarrow> bytes \<Rightarrow> bool" where
  "fits key val \<longleftrightarrow> length key < 2 ^ 16 \<and> 40 + length key + length val < 2 ^ 32"

definition small :: "(bytes \<rightharpoonup> item) \<Rightarrow> bool" where
  "small st \<longleftrightarrow> (\<forall>key it. st key = Some it \<longrightarrow> 40 + length (i_value it) < 2 ^ 32)"

text \<open>
  What ADD and REPLACE-with-CAS do to a store: ADD writes a missing key only, REPLACE only the
  version of the record that the CAS value names. A REPLACE is only ever sent with the CAS value
  of a record that a GET has returned. (To memcached a CAS value of 0 means that there is no
  condition; it numbers versions from 1 on, so that no record has that value.)
\<close>

definition add_item :: "bytes \<Rightarrow> bytes \<Rightarrow> u32 \<Rightarrow> u32 \<Rightarrow> (bytes \<rightharpoonup> item) \<Rightarrow> (bytes \<rightharpoonup> item) \<Rightarrow> bool" where
  "add_item key val flags expiry st st' \<longleftrightarrow>
     (if st key = None then stores st st' key val flags expiry else st' = st)"

definition replace_item :: "u64 \<Rightarrow> bytes \<Rightarrow> bytes \<Rightarrow> u32 \<Rightarrow> u32 \<Rightarrow> (bytes \<rightharpoonup> item) \<Rightarrow> (bytes \<rightharpoonup> item) \<Rightarrow> bool" where
  "replace_item cas key val flags expiry st st' \<longleftrightarrow>
     (case st key of
        None \<Rightarrow> st' = st
      | Some it \<Rightarrow> if i_cas it = cas then stores st st' key val flags expiry else st' = st)"

text \<open>
  The memcached of a tap thread is shared: before it serves a request of the tap, other clients
  may have changed its records by a step of \<open>rely\<close>. The status of the answer to a write is
  left open, since the tap thread does not look at it.
\<close>

type_synonym rely = "(bytes \<rightharpoonup> item) \<Rightarrow> (bytes \<rightharpoonup> item) \<Rightarrow> bool"

definition get_contract :: "rely \<Rightarrow> 'm peer \<Rightarrow> ('m \<Rightarrow> bytes \<rightharpoonup> item) \<Rightarrow> bool" where
  "get_contract rely peer view \<longleftrightarrow>
     (\<forall>m key. length key < 2 ^ 16 \<longrightarrow> small (view m) \<longrightarrow>
        (\<exists>m' evs rsp. peer m (to_wire (new_GetReq key 0)) = (m', True, evs) \<and> delivers evs rsp \<and>
           length (to_wire rsp) < 2 ^ 32 \<and> rely (view m) (view m') \<and>
           (case view m' key of None \<Rightarrow> \<exists>body. rsp = get_miss body | Some it \<Rightarrow> rsp = get_hit it)))"

definition add_contract :: "rely \<Rightarrow> 'm peer \<Rightarrow> ('m \<Rightarrow> bytes \<rightharpoonup> item) \<Rightarrow> bool" where
  "add_contract rely peer view \<longleftrightarrow>
     (\<forall>m key vb val flags expiry. fits key val \<longrightarrow>
        (\<exists>m' evs status cas st. peer m (to_wire (new_AddReq key vb val flags expiry)) = (m', True, evs) \<and>
           delivers evs (write_rsp ADD status cas) \<and> rely (view m) st \<and>
           add_item key val flags expiry st (view m')))"

definition replace_contract :: "rely \<Rightarrow> 'm peer \<Rightarrow> ('m \<Rightarrow> bytes \<rightharpoonup> item) \<Rightarrow> bool" where
  "replace_contract rely peer view \<longleftrightarrow>
     (\<forall>m key vb val cas flags expiry. fits key val \<longrightarrow>
        (\<exists>m' evs status cas' st. peer m (to_wire (new_ReplaceReq key vb val cas flags expiry)) = (m', True, evs) \<and>
           delivers evs (write_rsp REPLACE status cas') \<and> rely (view m) st \<and>
           replace_item cas key val flags expiry st (view m')))"

definition shared_contract :: "rely \<Rightarrow> 'm peer \<Rightarrow> ('m \<Rightarrow> bytes \<rightharpoonup> item) \<Rightarrow> bool" where
  "shared_contract rely peer view \<longleftrightarrow>
     get_contract rely peer view \<and> add_contract rely peer view \<and> replace_contract rely peer view"

text \<open>The memcached that the tap thread has for itself.\<close>

definition memcached_contract :: "'m peer \<Rightarrow> ('m \<Rightarrow> bytes \<rightharpoonup> item) \<Rightarrow> bool" where
  "memcached_contract = shared_contract (=)"

section \<open>The abstract merge\<close>

text \<open>A record without its CAS value, and the merge of a streamed record into a store.\<close>

type_synonym rec3 = "bytes \<times> u32 \<times> u32"

definition rec_of :: "item \<Rightarrow> rec3" where
  "rec_of it = (i_value it, i_flags it, i_expiry it)"

definition abs_store :: "(bytes \<rightharpoonup> item) \<Rightarrow> (bytes \<rightharpoonup> rec3)" where
  "abs_store st key = map_option rec_of (st key)"

fun merge_newest :: "rec3 option \<Rightarrow> rec3 \<Rightarrow> rec3" where
  "merge_newest None r = r"
| "merge_newest (Some (v, f, e)) (v', f', e') = (if ts_before f f' then (v', f', e') else (v, f, e))"

definition accepted :: "(bytes \<Rightarrow> u32) \<Rightarrow> vbucket list \<Rightarrow> bytes \<Rightarrow> bool" where
  "accepted hash bs key \<longleftrightarrow> vbucket_for_key hash key \<in> set bs \<and> \<not> starts_with ASTAIRE_KEY_PREFIX key"

definition merge_one :: "(bytes \<Rightarrow> u32) \<Rightarrow> vbucket list \<Rightarrow> bytes \<Rightarrow> rec3 \<Rightarrow> (bytes \<rightharpoonup> rec3) \<Rightarrow> (bytes \<rightharpoonup> rec3)" where
  "merge_one hash bs key r st =
     (if accepted hash bs key then st(key \<mapsto> merge_newest (st key) r) else st)"

definition merge_mutation :: "(bytes \<Rightarrow> u32) \<Rightarrow> vbucket list \<Rightarrow> message \<Rightarrow> (bytes \<rightharpoonup> rec3) \<Rightarrow> (bytes \<rightharpoonup> rec3)" where
  "merge_mutation hash bs m =
     merge_one hash bs (m_key (msg_base m)) (mutate_value m, mutate_flags m, mutate_expiry m)"

section \<open>One record\<close>

text \<open>The local connection is open and nothing is left over on it.\<close>

definition clean :: "connection \<Rightarrow> bool" where
  "clean c \<longleftrightarrow> 0 \<le> c_sock c \<and> c_buffer c = [] \<and> c_pending c = []"

lemma send_recv_delivered:
  assumes "clean c" "peer m (to_wire req) = (m', True, evs)"
    "delivers evs rsp" "self_parsing oob rsp" "length (to_wire rsp) < 2 ^ 32"
  shows "send peer m c req = (True, m', c\<lparr>c_pending := evs\<rparr>)"
    and "recv oob (c\<lparr>c_pending := evs\<rparr>) = Returns (St_OK, Some rsp, c)"
proof -
  obtain chunks where chunks: "evs = map Recv chunks" "[] \<notin> set chunks" "concat chunks = to_wire rsp"
    using assms(3) by (auto simp: delivers_def)
  have "\<exists>buf' chunks'. recv_loop (from_wire oob) (c_rcvtimeo c) [] (map Recv chunks @ []) =
      Returns (St_OK, Some rsp, buf', map Recv chunks' @ []) \<and>
      buf' @ concat chunks' = [] \<and> [] \<notin> set chunks'"
    using chunks assms(4,5) by (intro wire.recv_loop_chunks) auto
  then obtain buf' chunks' where loop:
    "recv_loop (from_wire oob) (c_rcvtimeo c) [] evs = Returns (St_OK, Some rsp, buf', map Recv chunks')"
    "buf' = []" "concat chunks' = []" "[] \<notin> set chunks'"
    using chunks(1) by auto
  from loop(3,4) have "chunks' = []" by (cases chunks') auto
  with loop assms(1) show "recv oob (c\<lparr>c_pending := evs\<rparr>) = Returns (St_OK, Some rsp, c)"
    by (simp add: recv_def clean_def)
  show "send peer m c req = (True, m', c\<lparr>c_pending := evs\<rparr>)"
    using assms(1,2) by (simp add: send_def clean_def)
qed

lemma round_trip_delivered:
  assumes "clean (ts_local_conn s)" "peer (ts_memcached s) (to_wire req) = (m', True, evs)"
    "delivers evs rsp" "self_parsing oob rsp" "length (to_wire rsp) < 2 ^ 32"
  shows "local_round_trip oob peer req s = Returns (St_OK, Some rsp, s\<lparr>ts_memcached := m'\<rparr>)"
  using send_recv_delivered [where peer = peer and req = req, OF assms] by (simp add: local_round_trip_def)

lemma self_parsing_responses:
  "self_parsing oob (get_hit it)"
  "self_parsing oob (write_rsp ADD status cas)"
  "self_parsing oob (write_rsp REPLACE status cas)"
  by (simp_all add: self_parsing_def get_hit_def write_rsp_def new_GetRsp_def base_def)

text \<open>
  A miss carries no flags: the parsed response holds the out-of-bounds value in their place,
  and is otherwise the response that was sent.
\<close>

definition parsed_miss :: "(nat \<Rightarrow> u32) \<Rightarrow> bytes \<Rightarrow> message" where
  "parsed_miss oob body = new_GetRsp (result_u16 KEY_NOT_FOUND) 0 0 body (oob 0) []"

lemma parsed_miss:
  "self_parsing oob (parsed_miss oob body)" "to_wire (parsed_miss oob body) = to_wire (get_miss body)"
  by (simp_all add: self_parsing_def parsed_miss_def get_miss_def new_GetRsp_def base_def to_wire_eq
      is_request_def op_code_def)

lemma length_write_rsp: "length (to_wire (write_rsp opc status cas)) < 2 ^ 32"
  by (simp add: length_to_wire write_rsp_def base_def)

lemma get_round_trip:
  assumes "get_contract rely peer view" "length key < 2 ^ 16" "clean (ts_local_conn s)"
    "small (view (ts_memcached s))"
  shows "\<exists>rsp m'. local_round_trip oob peer (new_GetReq key 0) s = Returns (St_OK, Some rsp, s\<lparr>ts_memcached := m'\<rparr>) \<and>
    rely (view (ts_memcached s)) (view m') \<and> is_response rsp \<and> op_code rsp = op_byte GET \<and>
    decide_write rsp flags =
      (case view m' key of
         None \<Rightarrow> DoAdd
       | Some it \<Rightarrow> if ts_before (i_flags it) flags then DoReplace (i_cas it) else KeepLocal)"
proof -
  obtain m' evs rsp where get: "peer (ts_memcached s) (to_wire (new_GetReq key 0)) = (m', True, evs)"
      "delivers evs rsp" "length (to_wire rsp) < 2 ^ 32" "rely (view (ts_memcached s)) (view m')"
      "case view m' key of None \<Rightarrow> \<exists>body. rsp = get_miss body | Some it \<Rightarrow> rsp = get_hit it"
    using assms(1,2,4) unfolding get_contract_def by blast
  note trip = round_trip_delivered [where peer = peer and req = "new_GetReq key 0" and oob = oob, OF assms(3) get(1)]
  show ?thesis
  proof (cases "view m' key")
    case None
    with get(5) obtain body where "rsp = get_miss body" by auto
    with get have "delivers evs (parsed_miss oob body)" "length (to_wire (parsed_miss oob body)) < 2 ^ 32"
      by (simp_all add: delivers_def parsed_miss(2))
    from trip [OF this(1) parsed_miss(1) this(2)] None get(4) show ?thesis
      by (intro exI [of _ "parsed_miss oob body"] exI [of _ m'])
        (simp add: parsed_miss_def new_GetRsp_def base_def op_code_def decide_write_def result_code_def)
  next
    case (Some it)
    with get(5) have "rsp = get_hit it" by simp
    with get have "delivers evs (get_hit it)" "length (to_wire (get_hit it)) < 2 ^ 32" by simp_all
    from trip [OF this(1) self_parsing_responses(1) this(2)] Some get(4) show ?thesis
      by (intro exI [of _ "get_hit it"] exI [of _ m'])
        (simp add: get_hit_def new_GetRsp_def base_def op_code_def decide_write_def result_code_def)
  qed
qed

lemma count_key_Returns:
  assumes "tap_inv I d s" "vb \<in> set (td_buckets d)"
  shows "\<exists>s'. count_key clk d vb n s = Returns s' \<and> tap_inv I d s' \<and>
    ts_memcached s' = ts_memcached s \<and> ts_local_conn s' = ts_local_conn s \<and> ts_success s' = ts_success s"
  using count_key_safe [OF assms, of clk n]
  by (cases "count_key clk d vb n s")
    (auto simp: count_key_def Let_def split: option.splits)

lemma abs_store_stores:
  "stores st st' key val flags expiry \<Longrightarrow> abs_store st' = (abs_store st)(key \<mapsto> (val, flags, expiry))"
  by (auto simp: stores_def abs_store_def rec_of_def fun_eq_iff)

text \<open>The state after a step of a successful tap.\<close>

definition tap_ready :: "tap_data \<Rightarrow> 'm tap_state \<Rightarrow> bool" where
  "tap_ready d s \<longleftrightarrow> tap_inv (\<lambda>_. True) d s \<and> clean (ts_local_conn s)"

lemma small_stores:
  "small st \<Longrightarrow> stores st st' key val flags expiry \<Longrightarrow> fits key val \<Longrightarrow> small st'"
  by (auto simp: small_def stores_def fits_def split: if_splits)

lemma write_and_count:
  assumes "tap_ready d s" "vb \<in> set (td_buckets d)"
    "peer (ts_memcached s) (to_wire req) = (m', True, evs)" "delivers evs (write_rsp opc status cas)"
    "opc = ADD \<or> opc = REPLACE"
  shows "\<exists>s'. bind_outcome (local_round_trip oob peer req s) (\<lambda>(status, rsp, s).
      if status \<noteq> St_OK then Returns (s\<lparr>ts_success := False\<rparr>) else count_key clk d vb n s) = Returns s' \<and>
    tap_ready d s' \<and> ts_success s' = ts_success s \<and> ts_memcached s' = m'"
proof -
  have sp: "self_parsing oob (write_rsp opc status cas)"
    using assms(5) self_parsing_responses by blast
  have rt: "local_round_trip oob peer req s =
      Returns (St_OK, Some (write_rsp opc status cas), s\<lparr>ts_memcached := m'\<rparr>)"
    using assms(1,3,4) sp length_write_rsp
    by (intro round_trip_delivered) (auto simp: tap_ready_def)
  have "tap_inv (\<lambda>_. True) d (s\<lparr>ts_memcached := m'\<rparr>)"
    using assms(1) by (simp add: tap_ready_def tap_inv_def)
  from count_key_Returns [OF this assms(2), of clk n] rt assms(1) show ?thesis
    by (auto simp: tap_ready_def)
qed

text \<open>
  The writes of one record: what is seen by the GET decides, and other clients may come before
  the GET and between the GET and the write.
\<close>

definition write_after :: "rely \<Rightarrow> bytes \<Rightarrow> bytes \<Rightarrow> u32 \<Rightarrow> u32 \<Rightarrow> item option \<Rightarrow> rely" where
  "write_after rely key val flags expiry seen st st' \<longleftrightarrow>
     (case seen of
        None \<Rightarrow> \<exists>st1. rely st st1 \<and> add_item key val flags expiry st1 st'
      | Some it \<Rightarrow>
          if ts_before (i_flags it) flags
          then \<exists>st1. rely st st1 \<and> replace_item (i_cas it) key val flags expiry st1 st'
          else st' = st)"

definition record_run :: "rely \<Rightarrow> (bytes \<Rightarrow> u32) \<Rightarrow> vbucket list \<Rightarrow> message \<Rightarrow> rely" where
  "record_run rely hash bs m st st' \<longleftrightarrow>
     (let key = m_key (msg_base m)
      in if accepted hash bs key
         then \<exists>st1. rely st st1 \<and>
           write_after rely key (mutate_value m) (mutate_flags m) (mutate_expiry m) (st1 key) st1 st'
         else st' = st)"

definition keeps_small :: "rely \<Rightarrow> bool" where
  "keeps_small rely \<longleftrightarrow> (\<forall>st st'. rely st st' \<longrightarrow> small st \<longrightarrow> small st')"

lemma small_written:
  assumes "fits key val" "small st"
  shows "add_item key val flags expiry st st' \<Longrightarrow> small st'"
    and "replace_item cas key val flags expiry st st' \<Longrightarrow> small st'"
  using small_stores [OF assms(2) _ assms(1)] assms(2)
  by (auto simp: add_item_def replace_item_def split: if_splits option.splits)

text \<open>Sending a write, waiting for the answer and counting the record, as both writes are done.\<close>

definition write_outcome :: "(nat \<Rightarrow> u32) \<Rightarrow> 'm peer \<Rightarrow> (nat \<Rightarrow> tick) \<Rightarrow> tap_data \<Rightarrow> vbucket \<Rightarrow> u32 \<Rightarrow> message \<Rightarrow>
    'm tap_state \<Rightarrow> 'm tap_state outcome" where
  "write_outcome oob peer clk d vb n req s =
     bind_outcome (local_round_trip oob peer req s) (\<lambda>(status, rsp, s).
       if status \<noteq> St_OK then Returns (s\<lparr>ts_success := False\<rparr>) else count_key clk d vb n s)"

definition written_by :: "rely \<Rightarrow> ('m \<Rightarrow> bytes \<rightharpoonup> item) \<Rightarrow> tap_data \<Rightarrow> rely \<Rightarrow> 'm tap_state \<Rightarrow> 'm tap_state outcome \<Rightarrow> bool" where
  "written_by rely view d effect s out \<longleftrightarrow>
     (\<exists>s' st. out = Returns s' \<and> tap_ready d s' \<and> ts_success s' = ts_success s \<and> small (view (ts_memcached s')) \<and>
        rely (view (ts_memcached s)) st \<and> effect st (view (ts_memcached s')))"

lemma writes_run:
  assumes contract: "shared_contract rely peer view" "keeps_small rely" and fit: "fits key val"
    and ready: "tap_ready d s" and small: "small (view (ts_memcached s))"
    and vb: "vb \<in> set (td_buckets d)"
  shows "written_by rely view d (add_item key val flags expiry) s
      (write_outcome oob peer clk d vb n (new_AddReq key vb val flags expiry) s)"
    and "written_by rely view d (replace_item cas key val flags expiry) s
      (write_outcome oob peer clk d vb n (new_ReplaceReq key vb val cas flags expiry) s)"
proof -
  let ?m = "ts_memcached s"
  note run = write_and_count [where peer = peer and oob = oob and clk = clk and n = n, OF ready vb]
  have keep: "rely (view ?m) st \<Longrightarrow> small st" for st
    using contract(2) small unfolding keeps_small_def by blast
  obtain m' evs status c st where add: "peer ?m (to_wire (new_AddReq key vb val flags expiry)) = (m', True, evs)"
      "delivers evs (write_rsp ADD status c)" "rely (view ?m) st" "add_item key val flags expiry st (view m')"
    using contract(1) fit unfolding shared_contract_def add_contract_def by blast
  from run [OF add(1,2)] small_written(1) [OF fit keep [OF add(3)] add(4)] add(3,4)
  show "written_by rely view d (add_item key val flags expiry) s
      (write_outcome oob peer clk d vb n (new_AddReq key vb val flags expiry) s)"
    by (auto simp: written_by_def write_outcome_def)
  obtain m' evs status c st where repl: "peer ?m (to_wire (new_ReplaceReq key vb val cas flags expiry)) = (m', True, evs)"
      "delivers evs (write_rsp REPLACE status c)" "rely (view ?m) st" "replace_item cas key val flags expiry st (view m')"
    using contract(1) fit unfolding shared_contract_def replace_contract_def by blast
  from run [OF repl(1,2)] small_written(2) [OF fit keep [OF repl(3)] repl(4)] repl(3,4)
  show "written_by rely view d (replace_item cas key val flags expiry) s
      (write_outcome oob peer clk d vb n (new_ReplaceReq key vb val cas flags expiry) s)"
    by (auto simp: written_by_def write_outcome_def)
qed

text \<open>
  What a stream of records does to the local memcached, from what each of them does: \<open>handles\<close>
  holds of a memcached where every record of a stream is written and counted and changes it by
  a step of \<open>R\<close>, and \<open>threaded\<close> is the sequence of these steps.
\<close>

definition handles :: "(bytes \<Rightarrow> u32) \<Rightarrow> (nat \<Rightarrow> u32) \<Rightarrow> (nat \<Rightarrow> tick) \<Rightarrow> 'm peer \<Rightarrow> tap_data \<Rightarrow>
    ('m \<Rightarrow> bool) \<Rightarrow> (message \<Rightarrow> 'm \<Rightarrow> 'm \<Rightarrow> bool) \<Rightarrow> bool" where
  "handles hash oob clk peer d I R \<longleftrightarrow>
     (\<forall>m n s. fits (m_key (msg_base m)) (mutate_value m) \<longrightarrow> tap_ready d s \<longrightarrow> I (ts_memcached s) \<longrightarrow>
        (\<exists>s'. handle_mutate hash oob clk peer d (m_key (msg_base m)) (mutate_value m) (mutate_flags m)
             (mutate_expiry m) n s = Returns s' \<and>
           tap_ready d s' \<and> ts_success s' = ts_success s \<and> I (ts_memcached s') \<and>
           R m (ts_memcached s) (ts_memcached s')))"

fun threaded :: "(message \<Rightarrow> 'm \<Rightarrow> 'm \<Rightarrow> bool) \<Rightarrow> message list \<Rightarrow> 'm \<Rightarrow> 'm \<Rightarrow> bool" where
  "threaded R [] a b \<longleftrightarrow> b = a"
| "threaded R (m # ms) a b \<longleftrightarrow> (\<exists>a'. R m a a' \<and> threaded R ms a' b)"

lemma written_by_after:
  assumes "written_by rely view d effect (s\<lparr>ts_memcached := m1\<rparr>) out" "rely (view (ts_memcached s)) (view m1)"
    and "\<And>st st'. rely (view m1) st \<Longrightarrow> effect st st' \<Longrightarrow> write_after rely key val flags expiry (view m1 key) (view m1) st'"
  shows "\<exists>s' st. out = Returns s' \<and> tap_ready d s' \<and> ts_success s' = ts_success s \<and> small (view (ts_memcached s')) \<and>
    rely (view (ts_memcached s)) st \<and> write_after rely key val flags expiry (st key) st (view (ts_memcached s'))"
  using assms unfolding written_by_def by fastforce

lemma handle_accepted:
  assumes contract: "shared_contract rely peer view" "keeps_small rely" and fit: "fits key val"
    and ready: "tap_ready d s" and small: "small (view (ts_memcached s))"
    and accepted: "accepted hash (td_buckets d) key"
  shows "\<exists>s' st. handle_mutate hash oob clk peer d key val flags expiry n s = Returns s' \<and>
    tap_ready d s' \<and> ts_success s' = ts_success s \<and> small (view (ts_memcached s')) \<and>
    rely (view (ts_memcached s)) st \<and> write_after rely key val flags expiry (st key) st (view (ts_memcached s'))"
proof -
  have vb: "vbucket_for_key hash key \<in> set (td_buckets d)" "\<not> starts_with ASTAIRE_KEY_PREFIX key"
    using accepted by (simp_all add: accepted_def)
  obtain rsp m1 where get: "local_round_trip oob peer (new_GetReq key 0) s = Returns (St_OK, Some rsp, s\<lparr>ts_memcached := m1\<rparr>)"
      "is_response rsp" "op_code rsp = op_byte GET" and rely: "rely (view (ts_memcached s)) (view m1)"
    and decide: "decide_write rsp flags = (case view m1 key of None \<Rightarrow> DoAdd
       | Some it \<Rightarrow> if ts_before (i_flags it) flags then DoReplace (i_cas it) else KeepLocal)"
    using get_round_trip [of rely peer view key s oob flags] contract(1) small fit ready
    by (auto simp: tap_ready_def fits_def shared_contract_def)
  let ?s = "s\<lparr>ts_memcached := m1\<rparr>"
  have s: "tap_ready d ?s" "small (view (ts_memcached ?s))"
    using ready small rely contract(2) by (auto simp: tap_ready_def tap_inv_def keeps_small_def)
  note written = writes_run [where oob = oob and clk = clk and n = n and flags = flags and expiry = expiry,
      OF contract fit s vb(1)]
  show ?thesis
  proof (cases "decide_write rsp flags")
    case KeepLocal
    then have "write_after rely key val flags expiry (view m1 key) (view m1) (view m1)"
      using decide by (auto simp: write_after_def split: option.splits if_splits)
    with count_key_Returns [of "\<lambda>_. True" d ?s "vbucket_for_key hash key" clk n] s vb(1) KeepLocal rely show ?thesis
      by (auto simp: handle_mutate_def Let_def vb get tap_ready_def)
  next
    case DoAdd
    with decide have none: "view m1 key = None" by (auto split: option.splits if_splits)
    have eq: "handle_mutate hash oob clk peer d key val flags expiry n s =
        write_outcome oob peer clk d (vbucket_for_key hash key) n (new_AddReq key (vbucket_for_key hash key) val flags expiry) ?s"
      by (simp add: handle_mutate_def write_outcome_def Let_def vb get DoAdd)
    show ?thesis
      unfolding eq by (rule written_by_after [OF written(1) rely]) (use none in \<open>auto simp: write_after_def\<close>)
  next
    case (DoReplace cas)
    with decide obtain it where it: "view m1 key = Some it" "ts_before (i_flags it) flags" "cas = i_cas it"
      by (auto split: option.splits if_splits)
    have eq: "handle_mutate hash oob clk peer d key val flags expiry n s =
        write_outcome oob peer clk d (vbucket_for_key hash key) n
          (new_ReplaceReq key (vbucket_for_key hash key) val cas flags expiry) ?s"
      by (simp add: handle_mutate_def write_outcome_def Let_def vb get DoReplace)
    show ?thesis
      unfolding eq by (rule written_by_after [OF written(2) rely]) (use it in \<open>auto simp: write_after_def\<close>)
  qed (use decide in \<open>auto split: option.splits if_splits\<close>)
qed

lemma handles_records:
  assumes "shared_contract rely peer view" "keeps_small rely"
  shows "handles hash oob clk peer d (\<lambda>m. small (view m))
    (\<lambda>m a b. record_run rely hash (td_buckets d) m (view a) (view b))"
  unfolding handles_def
proof (intro allI impI)
  fix m n s
  assume prems: "fits (m_key (msg_base m)) (mutate_value m)" "tap_ready d s" "small (view (ts_memcached s))"
  show "\<exists>s'. handle_mutate hash oob clk peer d (m_key (msg_base m)) (mutate_value m) (mutate_flags m)
      (mutate_expiry m) n s = Returns s' \<and>
    tap_ready d s' \<and> ts_success s' = ts_success s \<and> small (view (ts_memcached s')) \<and>
    record_run rely hash (td_buckets d) m (view (ts_memcached s)) (view (ts_memcached s'))"
  proof (cases "accepted hash (td_buckets d) (m_key (msg_base m))")
    case True
    from handle_accepted [OF assms prems True, of oob clk "mutate_flags m" "mutate_expiry m" n] True show ?thesis
      by (auto simp: record_run_def Let_def)
  next
    case False
    then show ?thesis
      using prems(2,3) by (auto simp: handle_mutate_def Let_def accepted_def record_run_def)
  qed
qed

section \<open>A whole stream\<close>

lemma mutate_ok_parts:
  "mutate_ok pre m \<Longrightarrow> length (mutate_wire pre m) < 2 ^ 32 \<Longrightarrow>
     \<not> is_response m \<and> op_code m = op_byte TAP_MUTATE \<and> fits (m_key (msg_base m)) (mutate_value m)"
  by (cases m) (auto simp: op_code_def fits_def)

text \<open>
  What is left of a stream that is closed before its last message is complete: the strict
  prefix of one more TAP_MUTATE request, possibly nothing.
\<close>

definition cut_short :: "bytes \<Rightarrow> bytes \<Rightarrow> bool" where
  "cut_short pre tail \<longleftrightarrow>
     (\<exists>m us. mutate_ok pre m \<and> length (mutate_wire pre m) < 2 ^ 32 \<and> us \<noteq> [] \<and> tail @ us = mutate_wire pre m)"

lemma tap_loop_threaded:
  assumes handles: "handles hash oob clk peer d I R" and cut: "cut_short pre tail"
  shows "list_all (mutate_ok pre) ms \<Longrightarrow> length (concat (map (mutate_wire pre) ms) @ tail) < 2 ^ 32 \<Longrightarrow>
    c_sock c \<noteq> -1 \<Longrightarrow> c_buffer c @ concat chunks = concat (map (mutate_wire pre) ms) @ tail \<Longrightarrow>
    c_pending c = map Recv chunks @ [Recv []] \<Longrightarrow> [] \<notin> set chunks \<Longrightarrow> tap_ready d s \<Longrightarrow>
    I (ts_memcached s) \<Longrightarrow>
    \<exists>s' c'. tap_loop hash oob clk peer d c s = Returns (s', c') \<and> tap_ready d s' \<and>
      ts_success s' = ts_success s \<and> I (ts_memcached s') \<and> threaded R ms (ts_memcached s) (ts_memcached s')"
proof (induction ms arbitrary: c chunks s)
  case Nil
  obtain m us where "mutate_ok pre m" "length (mutate_wire pre m) < 2 ^ 32" "us \<noteq> []" "tail @ us = mutate_wire pre m"
    using cut by (auto simp: cut_short_def)
  with mutate.recv_loop_truncated [of pre m us "c_buffer c" chunks oob "c_rcvtimeo c"] Nil
  have "recv oob c = Returns (St_DISCONNECTED, None, c\<lparr>c_buffer := tail, c_pending := [], c_sock := -1\<rparr>)"
    by (simp add: recv_def)
  then show ?case
    using Nil.prems(7,8) by (simp add: tap_loop.simps [of hash oob clk peer d c s])
next
  case (Cons m ms)
  let ?rest = "concat (map (mutate_wire pre) ms) @ tail"
  from Cons.prems obtain buf' chunks' where
    loop: "recv_loop (from_wire oob) (c_rcvtimeo c) (c_buffer c) (map Recv chunks @ [Recv []]) =
       Returns (St_OK, Some m, buf', map Recv chunks' @ [Recv []])"
    and rest: "buf' @ concat chunks' = ?rest" "[] \<notin> set chunks'"
    using mutate.recv_loop_chunks [of pre m ?rest "c_buffer c" chunks oob "c_rcvtimeo c" "[Recv []]"]
    by auto
  let ?c' = "c\<lparr>c_buffer := buf', c_pending := map Recv chunks' @ [Recv []]\<rparr>"
  have recv: "recv oob c = Returns (St_OK, Some m, ?c')"
    using loop Cons.prems(3,5) by (simp add: recv_def)
  have ok: "\<not> is_response m" "op_code m = op_byte TAP_MUTATE" "fits (m_key (msg_base m)) (mutate_value m)"
    using Cons.prems(1,2) mutate_ok_parts [of pre m] by auto
  obtain s1 where s1: "handle_mutate hash oob clk peer d (m_key (msg_base m)) (mutate_value m)
        (mutate_flags m) (mutate_expiry m) (of_nat (length (to_wire m))) s = Returns s1"
      "tap_ready d s1" "ts_success s1 = ts_success s" "I (ts_memcached s1)"
      "R m (ts_memcached s) (ts_memcached s1)"
    using handles ok(3) Cons.prems(7,8) unfolding handles_def by blast
  have "tap_loop hash oob clk peer d c s = tap_loop hash oob clk peer d ?c' s1"
    using ok s1(1) by (simp add: tap_loop.simps [of hash oob clk peer d c s] recv del: op_byte.simps)
  with Cons.IH [of ?c' chunks' s1] rest Cons.prems s1 show ?case
    by auto
qed

text \<open>
  The surroundings of a tap that runs to its end: both connections are made, and the tapped
  server answers the TAP_CONNECT request with the TAP_MUTATE requests \<open>ms\<close> and the bytes
  \<open>tail\<close>, cut into chunks of any size, and closes the connection. A stream that is complete
  has no \<open>tail\<close>.
\<close>

definition connects :: "(server \<Rightarrow> (string \<times> int) option) \<Rightarrow> net_env \<Rightarrow> server \<Rightarrow> bool" where
  "connects shp env addr \<longleftrightarrow>
     fst (connect shp env (new_ClientConnection addr)) = 0 \<and>
     0 \<le> c_sock (snd (connect shp env (new_ClientConnection addr)))"

definition streams :: "'t peer \<Rightarrow> 't \<Rightarrow> vbucket list \<Rightarrow> bytes \<Rightarrow> message list \<Rightarrow> bytes \<Rightarrow> bool" where
  "streams tap_peer t bs pre ms tail \<longleftrightarrow>
     list_all (mutate_ok pre) ms \<and> length (concat (map (mutate_wire pre) ms) @ tail) < 2 ^ 32 \<and>
     (\<exists>t' chunks. tap_peer t (to_wire (new_TapConnectReq bs)) = (t', True, map Recv chunks @ [Recv []]) \<and>
        concat chunks = concat (map (mutate_wire pre) ms) @ tail \<and> [] \<notin> set chunks)"

lemma cut_short_Nil: "length pre = 8 \<Longrightarrow> cut_short pre []"
  by (auto simp: cut_short_def intro!: exI [of _ "TapMutateReq (base TAP_MUTATE [] 0 0) 0 [] 0 0"] simp: base_def)

lemma connects_connect:
  assumes "connects shp env addr"
  shows "\<exists>c. connect shp env (new_ClientConnection addr) = (0, c) \<and> clean c \<and> c_rcvtimeo c"
proof -
  obtain rc c where c: "connect shp env (new_ClientConnection addr) = (rc, c)"
    by (cases "connect shp env (new_ClientConnection addr)")
  with assms have "rc = 0" "0 \<le> c_sock c" by (simp_all add: connects_def)
  moreover from c this have "c_rcvtimeo c"
    by (auto simp: connect_def Let_def new_ClientConnection_def split: option.splits prod.splits if_splits)
  moreover have "c_buffer c = []" "c_pending c = []"
    using connect_result(2,3) [OF c] by (simp_all add: new_ClientConnection_def)
  ultimately show ?thesis
    using c by (simp add: clean_def)
qed

lemma tap_thread_threaded:
  assumes "handles hash oob clk peer d I R" "I (ts_memcached s)"
    and "connects shp local_env (td_local_server d)" "connects shp tap_env (td_tap_server d)"
    and "streams tap_peer t (td_buckets d) pre ms tail" "cut_short pre tail"
    and "has_buckets (td_conn_stats d) (td_buckets d) (ts_per_conn s)"
  shows "\<exists>s'. tap_buckets_thread shp local_env tap_env hash oob clk peer tap_peer t d s = Returns s' \<and>
    ts_success s' \<and> I (ts_memcached s') \<and> threaded R ms (ts_memcached s) (ts_memcached s')"
proof -
  obtain lc where lc: "connect shp local_env (new_ClientConnection (td_local_server d)) = (0, lc)"
      "clean lc" "c_rcvtimeo lc"
    using connects_connect assms(3) by blast
  obtain tc where tc: "connect shp tap_env (new_ClientConnection (td_tap_server d)) = (0, tc)" "clean tc"
    using connects_connect assms(4) by blast
  obtain t' chunks where st: "list_all (mutate_ok pre) ms" "length (concat (map (mutate_wire pre) ms) @ tail) < 2 ^ 32"
      "tap_peer t (to_wire (new_TapConnectReq (td_buckets d))) = (t', True, map Recv chunks @ [Recv []])"
      "concat chunks = concat (map (mutate_wire pre) ms) @ tail" "[] \<notin> set chunks"
    using assms(5) by (auto simp: streams_def)
  let ?tc = "tc\<lparr>c_pending := map Recv chunks @ [Recv []]\<rparr>"
  let ?s = "s\<lparr>ts_success := True, ts_local_conn := lc\<rparr>"
  have send: "send tap_peer t tc (new_TapConnectReq (td_buckets d)) = (True, t', ?tc)"
    using tc(2) st(3) by (simp add: send_def clean_def)
  have "tap_ready d ?s"
    using assms(7) lc(2,3) by (simp add: tap_ready_def tap_inv_def)
  then obtain s1 c1 where "tap_loop hash oob clk peer d ?tc ?s = Returns (s1, c1)" "ts_success s1"
      "I (ts_memcached s1)" "threaded R ms (ts_memcached s) (ts_memcached s1)"
    using tap_loop_threaded [OF assms(1,6) st(1,2), of ?tc chunks ?s] tc(2) st(4,5) assms(2)
    by (auto simp: clean_def)
  then show ?thesis
    by (simp add: tap_buckets_thread_def finish_tap_def lc(1) tc(1) send Let_def)
qed

section \<open>A tap that has the local memcached for itself\<close>

lemma record_run_merges:
  assumes "record_run (=) hash bs m st st'"
  shows "abs_store st' = merge_mutation hash bs m (abs_store st)"
proof (cases "accepted hash bs (m_key (msg_base m))")
  case True
  let ?key = "m_key (msg_base m)"
  have at: "abs_store st ?key = map_option rec_of (st ?key)" by (simp add: abs_store_def)
  from assms True show ?thesis
    by (cases "st ?key")
      (auto simp: record_run_def write_after_def add_item_def replace_item_def merge_mutation_def merge_one_def
        abs_store_stores at rec_of_def Let_def split: if_splits)
qed (use assms in \<open>simp add: record_run_def merge_mutation_def merge_one_def\<close>)

lemma threaded_merges:
  "threaded (\<lambda>m a b. record_run (=) hash bs m (view a) (view b)) ms a b \<Longrightarrow>
     abs_store (view b) = fold (merge_mutation hash bs) ms (abs_store (view a))"
  by (induction ms arbitrary: a) (auto simp: record_run_merges)

lemma tap_thread_merges:
  assumes "memcached_contract peer view" "small (view (ts_memcached s))"
    and "connects shp local_env (td_local_server d)" "connects shp tap_env (td_tap_server d)"
    and "streams tap_peer t (td_buckets d) pre ms tail" "cut_short pre tail"
    and "has_buckets (td_conn_stats d) (td_buckets d) (ts_per_conn s)"
  shows "\<exists>s'. tap_buckets_thread shp local_env tap_env hash oob clk peer tap_peer t d s = Returns s' \<and>
    ts_success s' \<and> small (view (ts_memcached s')) \<and>
    abs_store (view (ts_memcached s')) =
      fold (merge_mutation hash (td_buckets d)) ms (abs_store (view (ts_memcached s)))"
proof -
  have "handles hash oob clk peer d (\<lambda>m. small (view m))
      (\<lambda>m a b. record_run (=) hash (td_buckets d) m (view a) (view b))"
    using assms(1) by (intro handles_records) (simp_all add: memcached_contract_def keeps_small_def)
  from tap_thread_threaded [OF this assms(2-7)] show ?thesis
    using threaded_merges [of hash "td_buckets d" view ms "ts_memcached s"] by blast
qed

section \<open>The newest record wins\<close>

text \<open>
  Timestamps are milliseconds cut to 32 bits. As long as the records involved were written
  within \<open>2 ^ 31\<close> milliseconds of each other (\<open>same_era\<close>: some choice of full timestamps
  reduces to the flags), the merge keeps the latest one, across a wrap of the 32 bits.
\<close>

definition same_era :: "(u32 \<Rightarrow> int) \<Rightarrow> u32 set \<Rightarrow> bool" where
  "same_era time F \<longleftrightarrow>
     (\<forall>f \<in> F. word_of_int (time f) = f) \<and> (\<forall>f \<in> F. \<forall>g \<in> F. \<bar>time f - time g\<bar> < 2 ^ 31)"

lemma ts_before_same_era:
  assumes "same_era time F" "f \<in> F" "g \<in> F"
  shows "ts_before f g \<longleftrightarrow> time f < time g"
proof -
  have "ts_before (word_of_int (time f)) (word_of_int (time g)) \<longleftrightarrow> time f < time g"
    using assms by (intro ts_before_word_of_int) (auto simp: same_era_def)
  then show ?thesis using assms by (simp add: same_era_def)
qed

definition flags_at :: "(bytes \<rightharpoonup> rec3) \<Rightarrow> bytes \<Rightarrow> u32 set" where
  "flags_at st key = (case st key of None \<Rightarrow> {} | Some (v, f, e) \<Rightarrow> {f})"

lemma fold_merge_newest:
  assumes "same_era time F" "mutate_flags ` set ms \<subseteq> F" "flags_at st key \<subseteq> F"
  shows "flags_at (fold (merge_mutation hash bs) ms st) key \<subseteq> F \<and>
    (\<forall>f \<in> flags_at st key \<union>
         {mutate_flags m | m. m \<in> set ms \<and> m_key (msg_base m) = key \<and> accepted hash bs key}.
       \<exists>g \<in> flags_at (fold (merge_mutation hash bs) ms st) key. time f \<le> time g)"
  using assms(2,3)
proof (induction ms arbitrary: st)
  case (Cons m ms)
  let ?st = "merge_mutation hash bs m st"
  have f: "mutate_flags m \<in> F" using Cons.prems(1) by simp
  have one: "flags_at ?st key \<subseteq> F \<and>
      (\<forall>f \<in> flags_at st key. \<exists>g \<in> flags_at ?st key. time f \<le> time g) \<and>
      (m_key (msg_base m) = key \<and> accepted hash bs key \<longrightarrow>
        (\<exists>g \<in> flags_at ?st key. time (mutate_flags m) \<le> time g))"
    using Cons.prems(2) f ts_before_same_era [OF assms(1)]
    by (auto simp: merge_mutation_def merge_one_def flags_at_def split: option.splits prod.splits if_splits)
  have ih: "flags_at (fold (merge_mutation hash bs) ms ?st) key \<subseteq> F \<and>
    (\<forall>f \<in> flags_at ?st key \<union>
         {mutate_flags m | m. m \<in> set ms \<and> m_key (msg_base m) = key \<and> accepted hash bs key}.
       \<exists>g \<in> flags_at (fold (merge_mutation hash bs) ms ?st) key. time f \<le> time g)"
    using Cons.prems(1) one by (intro Cons.IH) auto
  show ?case
  proof (intro conjI ballI)
    show "flags_at (fold (merge_mutation hash bs) (m # ms) st) key \<subseteq> F"
      using ih by simp
    fix f assume "f \<in> flags_at st key \<union>
      {mutate_flags m' | m'. m' \<in> set (m # ms) \<and> m_key (msg_base m') = key \<and> accepted hash bs key}"
    then consider "f \<in> flags_at st key"
      | "f = mutate_flags m \<and> m_key (msg_base m) = key \<and> accepted hash bs key"
      | "f \<in> {mutate_flags m | m. m \<in> set ms \<and> m_key (msg_base m) = key \<and> accepted hash bs key}"
      by auto
    then obtain h where "h \<in> flags_at ?st key \<union>
        {mutate_flags m | m. m \<in> set ms \<and> m_key (msg_base m) = key \<and> accepted hash bs key}"
        "time f \<le> time h"
      by cases (use one in blast)+
    with ih obtain g where "g \<in> flags_at (fold (merge_mutation hash bs) ms ?st) key" "time h \<le> time g"
      by blast
    with \<open>time f \<le> time h\<close> show
      "\<exists>g \<in> flags_at (fold (merge_mutation hash bs) (m # ms) st) key. time f \<le> time g"
      by (auto intro: order_trans)
  qed
qed auto

section \<open>A reference memcached\<close>

text \<open>A memcached over a store and a CAS counter, which satisfies the contract.\<close>

definition ref_memcached :: "((bytes \<rightharpoonup> item) \<times> u64) peer" where
  "ref_memcached p bin =
     (let (st, n) = p
      in case from_wire (\<lambda>_. 0) bin of
           Returns (Some (GetReq b _, _)) \<Rightarrow>
             (p, True, [Recv (to_wire (case st (m_key b) of None \<Rightarrow> get_miss [] | Some it \<Rightarrow> get_hit it))])
         | Returns (Some (AddReq b _ val flags expiry, _)) \<Rightarrow>
             if st (m_key b) = None
             then ((st(m_key b \<mapsto> \<lparr>i_value = val, i_flags = flags, i_expiry = expiry, i_cas = n\<rparr>), n + 1),
                   True, [Recv (to_wire (write_rsp ADD (result_u16 NO_ERROR) n))])
             else (p, True, [Recv (to_wire (write_rsp ADD (result_u16 KEY_EXISTS) 0))])
         | Returns (Some (ReplaceReq b _ val flags expiry, _)) \<Rightarrow>
             (case st (m_key b) of
                None \<Rightarrow> (p, True, [Recv (to_wire (write_rsp REPLACE (result_u16 KEY_NOT_FOUND) 0))])
              | Some it \<Rightarrow>
                  if i_cas it = m_cas b
                  then ((st(m_key b \<mapsto> \<lparr>i_value = val, i_flags = flags, i_expiry = expiry, i_cas = n\<rparr>), n + 1),
                        True, [Recv (to_wire (write_rsp REPLACE (result_u16 NO_ERROR) n))])
                  else (p, True, [Recv (to_wire (write_rsp REPLACE (result_u16 KEY_EXISTS) 0))]))
         | Returns (Some (SetReq b _ val flags expiry, _)) \<Rightarrow>
             ((st(m_key b \<mapsto> \<lparr>i_value = val, i_flags = flags, i_expiry = expiry, i_cas = n\<rparr>), n + 1),
              True, [Recv (to_wire (BaseRsp (base SET [] 0 n) (result_u16 NO_ERROR)))])
         | Returns (Some (DeleteReq b _, _)) \<Rightarrow>
             ((st(m_key b := None), n),
              True, [Recv (to_wire (BaseRsp (base DELETE [] 0 0)
                (result_u16 (if st (m_key b) = None then KEY_NOT_FOUND else NO_ERROR))))])
         | _ \<Rightarrow> (p, True, []))"

lemma delivers_one: "delivers [Recv (to_wire rsp)] rsp"
  using wire.enc_nonempty [of rsp] by (auto simp: delivers_def intro!: exI [of _ "[to_wire rsp]"])

lemma ref_memcached_parses:
  "length key < 2 ^ 16 \<Longrightarrow>
     from_wire oob (to_wire (new_GetReq key 0)) = Returns (Some (new_GetReq key 0, []))"
  "fits key val \<Longrightarrow>
     from_wire oob (to_wire (new_AddReq key vb val flags expiry)) =
       Returns (Some (new_AddReq key vb val flags expiry, []))"
  "fits key val \<Longrightarrow>
     from_wire oob (to_wire (new_ReplaceReq key vb val cas flags expiry)) =
       Returns (Some (new_ReplaceReq key vb val cas flags expiry, []))"
  using from_wire_to_wire [where rest = "[]" and oob = oob]
  by (simp_all add: new_GetReq_def new_AddReq_def new_ReplaceReq_def base_def fits_def length_to_wire
      sar_extra_def)

lemma ref_memcached_get:
  assumes "length key < 2 ^ 16" "small (fst m)"
  shows "\<exists>evs rsp. ref_memcached m (to_wire (new_GetReq key 0)) = (m, True, evs) \<and>
    delivers evs rsp \<and> length (to_wire rsp) < 2 ^ 32 \<and>
    (case fst m key of None \<Rightarrow> \<exists>body. rsp = get_miss body | Some it \<Rightarrow> rsp = get_hit it)"
proof -
  let ?rsp = "case fst m key of None \<Rightarrow> get_miss [] | Some it \<Rightarrow> get_hit it"
  have "ref_memcached m (to_wire (new_GetReq key 0)) = (m, True, [Recv (to_wire ?rsp)])"
    using ref_memcached_parses(1) [OF assms(1)]
    by (cases m) (simp add: ref_memcached_def new_GetReq_def base_def)
  moreover have "length (to_wire ?rsp) < 2 ^ 32"
    using assms(2)
    by (fastforce simp: length_to_wire get_miss_def get_hit_def new_GetRsp_def base_def small_def split: option.splits)
  ultimately show ?thesis
    using delivers_one [of ?rsp] by (intro exI [of _ "[Recv (to_wire ?rsp)]"] exI [of _ ?rsp])
      (auto split: option.splits)
qed

lemma ref_memcached_writes:
  "fits key val \<Longrightarrow> \<exists>m' rsp status cas. ref_memcached m (to_wire (new_AddReq key vb val flags expiry)) =
       (m', True, [Recv (to_wire (write_rsp ADD status cas))]) \<and> add_item key val flags expiry (fst m) (fst m')"
  "fits key val \<Longrightarrow> \<exists>m' rsp status cas'. ref_memcached m (to_wire (new_ReplaceReq key vb val cas flags expiry)) =
       (m', True, [Recv (to_wire (write_rsp REPLACE status cas'))]) \<and>
       replace_item cas key val flags expiry (fst m) (fst m')"
  by (cases m; auto simp: ref_memcached_def ref_memcached_parses; auto simp: new_AddReq_def new_ReplaceReq_def base_def
        add_item_def replace_item_def stores_def split: option.splits)+

lemma ref_memcached_contract: "memcached_contract ref_memcached fst"
  unfolding memcached_contract_def shared_contract_def get_contract_def add_contract_def replace_contract_def
  using ref_memcached_get ref_memcached_writes delivers_one by (intro conjI; metis)

section \<open>Properties\<close>

text \<open>
  C3: A tap that is answered by a stream of TAP_MUTATE requests, cut into chunks of any size and
  closed at its end, returns with the success flag set, and the records of the local memcached
  are then those of the abstract merge: every streamed record of the tapped vbuckets is added
  when its key is missing, replaces an older record, and is dropped when the local record is
  as new; no other record changes.
\<close>

theorem tap_refines_merge:
  assumes "memcached_contract peer view" "small (view (ts_memcached s))"
    and "connects shp local_env (td_local_server d)" "connects shp tap_env (td_tap_server d)"
    and "streams tap_peer t (td_buckets d) pre ms []" "length pre = 8"
    and "has_buckets (td_conn_stats d) (td_buckets d) (ts_per_conn s)"
  shows "\<exists>s'. tap_buckets_thread shp local_env tap_env hash oob clk peer tap_peer t d s = Returns s' \<and>
    ts_success s' \<and>
    abs_store (view (ts_memcached s')) =
      fold (merge_mutation hash (td_buckets d)) ms (abs_store (view (ts_memcached s)))"
  using tap_thread_merges [OF assms(1-5) cut_short_Nil [OF assms(6)] assms(7)] by blast

definition wit_stream :: "unit peer" where
  "wit_stream t bin = (t, True, [Recv (mutate_wire (replicate 8 0) wit_mutation), Recv []])"

lemma wit_streams: "streams wit_stream () bs (replicate 8 0) [wit_mutation] []"
  using mutate.enc_nonempty [of "replicate 8 0" wit_mutation]
  by (auto simp: streams_def wit_stream_def wit_mutation_def
      intro!: exI [of _ "[mutate_wire (replicate 8 0) wit_mutation]"])

lemma wit_connects: "connects wit_shp wit_env addr"
  by (simp add: connects_def connect_def wit_shp_def wit_env_def Let_def new_ClientConnection_def)

lemma abs_store_empty [simp]: "abs_store Map.empty = Map.empty"
  by (simp add: abs_store_def fun_eq_iff)

lemma wit_tap_memcached [simp]: "ts_memcached (wit_tap_state m) = m"
  by (simp add: wit_tap_state_def)

theorem tap_refines_merge_witness:
  "\<exists>s'. tap_buckets_thread wit_shp wit_env wit_env (\<lambda>_. 7) (\<lambda>_. 0) (\<lambda>_. (0, True)) ref_memcached
       wit_stream () wit_data (wit_tap_state (Map.empty, 1)) = Returns s' \<and>
     ts_success s' \<and> abs_store (fst (ts_memcached s')) = [[1] \<mapsto> ([2, 3], 9, 0)]"
proof -
  have "small (fst (ts_memcached (wit_tap_state (Map.empty, 1))))" by (simp add: small_def)
  from tap_refines_merge [where hash = "\<lambda>_. 7" and oob = "\<lambda>_. 0" and clk = "\<lambda>_. (0, True)",
      OF ref_memcached_contract this wit_connects wit_connects wit_streams _ wit_has_buckets]
  show ?thesis
    by (simp add: merge_mutation_def merge_one_def accepted_def wit_mutation_def wit_data_def
        vbucket_for_key_def starts_with_def ASTAIRE_KEY_PREFIX_def ascii_def)
qed

text \<open>
  C40: A tap whose stream is cut off in the middle of a record is reported as successful: the
  thread ends with the success flag set although the record was never written. The same
  happens when the TAP_CONNECT request cannot be sent at all.
\<close>

theorem interrupted_tap_is_success:
  assumes "memcached_contract peer view" "small (view (ts_memcached s))"
    and "connects shp local_env (td_local_server d)" "connects shp tap_env (td_tap_server d)"
    and "has_buckets (td_conn_stats d) (td_buckets d) (ts_per_conn s)"
    and "streams tap_peer t (td_buckets d) pre ms tail \<and> cut_short pre tail \<or>
      \<not> fst (snd (tap_peer t (to_wire (new_TapConnectReq (td_buckets d))))) \<and> ms = []"
  shows "\<exists>s'. tap_buckets_thread shp local_env tap_env hash oob clk peer tap_peer t d s = Returns s' \<and>
    ts_success s' \<and>
    abs_store (view (ts_memcached s')) =
      fold (merge_mutation hash (td_buckets d)) ms (abs_store (view (ts_memcached s)))"
  using assms(6)
proof
  assume "streams tap_peer t (td_buckets d) pre ms tail \<and> cut_short pre tail"
  then have "streams tap_peer t (td_buckets d) pre ms tail" "cut_short pre tail" by simp_all
  from tap_thread_merges [where hash = hash and oob = oob and clk = clk, OF assms(1-4) this assms(5)]
  show ?thesis by blast
next
  assume fail: "\<not> fst (snd (tap_peer t (to_wire (new_TapConnectReq (td_buckets d))))) \<and> ms = []"
  obtain lc where lc: "connect shp local_env (new_ClientConnection (td_local_server d)) = (0, lc)"
    using connects_connect assms(3) by blast
  obtain tc where tc: "connect shp tap_env (new_ClientConnection (td_tap_server d)) = (0, tc)" "clean tc"
    using connects_connect assms(4) by blast
  have "\<exists>t'. send tap_peer t tc (new_TapConnectReq (td_buckets d)) = (False, t', tc\<lparr>c_sock := -1\<rparr>)"
    using fail tc(2) by (auto simp: send_def clean_def Let_def split: prod.splits)
  then show ?thesis
    using fail by (auto simp: tap_buckets_thread_def finish_tap_def lc tc(1) Let_def tap_loop.simps recv_def)
qed

theorem interrupted_tap_is_success_witness:
  "\<exists>s'. tap_buckets_thread wit_shp wit_env wit_env (\<lambda>_. 7) (\<lambda>_. 0) (\<lambda>_. (0, True)) ref_memcached
       (\<lambda>t bin. (t, True, [Recv (take 30 (mutate_wire (replicate 8 0) wit_mutation)), Recv []])) ()
       wit_data (wit_tap_state (Map.empty, 1)) = Returns s' \<and>
     ts_success s' \<and> abs_store (fst (ts_memcached s')) = Map.empty"
proof -
  let ?w = "mutate_wire (replicate 8 0) wit_mutation"
  let ?peer = "\<lambda>t bin. (t, True, [Recv (take 30 ?w), Recv []]) :: unit \<times> bool \<times> recv_event list"
  have len: "length ?w = 43" "mutate_ok (replicate 8 0) wit_mutation" by (simp_all add: wit_mutation_def)
  have "cut_short (replicate 8 0) (take 30 ?w)"
    unfolding cut_short_def using len
    by (intro exI [of _ wit_mutation] exI [of _ "drop 30 ?w"]) auto
  moreover have "streams ?peer () (td_buckets wit_data) (replicate 8 0) [] (take 30 ?w)"
    using len(1) by (auto simp: streams_def intro!: exI [of _ "[take 30 ?w]"])
  moreover have "small (fst (ts_memcached (wit_tap_state (Map.empty, 1))))" by (simp add: small_def)
  ultimately show ?thesis
    using interrupted_tap_is_success [where hash = "\<lambda>_. 7" and oob = "\<lambda>_. 0" and clk = "\<lambda>_. (0, True)"
        and ms = "[]" and pre = "replicate 8 0" and tap_peer = ?peer and t = "()",
      OF ref_memcached_contract _ wit_connects wit_connects wit_has_buckets, of "(Map.empty, 1)" "take 30 ?w"]
    by simp
qed

end
