(* ===== verification/Resync.thy ===== *)
theory Resync
  imports Tap_Merge "HOL-Library.Sublist"
begin

text \<open>
  The resynchronisation of \<open>astaire.cpp\<close>: \<open>do_resync\<close>, \<open>calculate_worklist\<close>,
  \<open>process_worklist\<close>, \<open>calculate_taps\<close>, \<open>perform_single_tap\<close>,
  \<open>complete_single_tap\<close>, \<open>blacklist_server\<close> and the functions on outstanding work lists.

  The cluster view (\<open>MemcachedStoreView\<close> of cpp-common) is read through its two replica maps.
  Thread creation and joining are an environment: they may change the state the threads share
  in any way, so that every scheduling of the tap threads is covered. An environment that runs
  the tap threads of theory \<open>Tap\<close> is defined at the end.
\<close>

section \<open>Work lists\<close>

type_synonym ReplicaList = "server list"
type_synonym OutstandingWorkList = "(u16, ReplicaList) smap"
type_synonym TapList = "(server, u16 list) smap"

record view =
  v_current_replicas :: "(int, ReplicaList) smap"
  v_new_replicas :: "(int, ReplicaList) smap"

definition is_in_vector :: "'a list \<Rightarrow> 'a \<Rightarrow> bool" where
  "is_in_vector vec item \<longleftrightarrow> item \<in> set vec"

definition source_replicas :: "bool \<Rightarrow> server \<Rightarrow> (int, ReplicaList) smap \<Rightarrow> int \<Rightarrow> ReplicaList" where
  "source_replicas full_resync self current_replicas vbucket =
     (let source = smap_get [] current_replicas vbucket
      in if full_resync then remove1 self source else source)"

text \<open>One turn of the loop over \<open>new_replicas\<close>; the \<open>int\<close> vbucket is a \<open>uint16_t\<close> key of the list.\<close>

definition worklist_step :: "bool \<Rightarrow> server \<Rightarrow> (int, ReplicaList) smap \<Rightarrow> int \<times> ReplicaList \<Rightarrow>
    OutstandingWorkList \<Rightarrow> OutstandingWorkList" where
  "worklist_step full_resync self current_replicas it owl =
     (if is_in_vector (snd it) self
      then
        let source = source_replicas full_resync self current_replicas (fst it)
        in if source \<noteq> [] \<and> \<not> is_in_vector source self
           then smap_upd (word_of_int (fst it)) source owl else owl
      else owl)"

definition calculate_worklist :: "server \<Rightarrow> view \<Rightarrow> bool \<Rightarrow> OutstandingWorkList" where
  "calculate_worklist self view full_resync =
     (let current_replicas = v_current_replicas view;
          new_replicas = v_new_replicas view;
          new_replicas = (if new_replicas = [] then current_replicas else new_replicas)
      in fold (worklist_step full_resync self current_replicas) new_replicas [])"

text \<open>
  \<open>calculate_taps\<close> goes over the list once and changes it in place: it returns the taps and
  the list that is left.
\<close>

fun calculate_taps_loop :: "OutstandingWorkList \<Rightarrow> TapList \<Rightarrow> TapList \<times> OutstandingWorkList" where
  "calculate_taps_loop [] taps = (taps, [])"
| "calculate_taps_loop ((vbucket, []) # owl) taps =
     (let (taps, owl) = calculate_taps_loop owl taps in (taps, (vbucket, []) # owl))"
| "calculate_taps_loop ((vbucket, replica # replica_list) # owl) taps =
     (let (taps, owl) = calculate_taps_loop owl (smap_upd replica (smap_get [] taps replica @ [vbucket]) taps)
      in (taps, (vbucket, replica_list) # owl))"

definition calculate_taps :: "OutstandingWorkList \<Rightarrow> TapList \<times> OutstandingWorkList" where
  "calculate_taps owl = calculate_taps_loop owl []"

definition blacklist_server :: "OutstandingWorkList \<Rightarrow> server \<Rightarrow> OutstandingWorkList" where
  "blacklist_server owl server = map (\<lambda>(b, servers). (b, filter (\<lambda>s. s \<noteq> server) servers)) owl"

definition owl_total_buckets :: "OutstandingWorkList \<Rightarrow> int" where
  "owl_total_buckets owl = fold (\<lambda>(b, servers) buckets. buckets + int (length servers)) owl 0"

definition owl_empty :: "OutstandingWorkList \<Rightarrow> bool" where
  "owl_empty owl \<longleftrightarrow> list_all (\<lambda>(b, servers). servers = []) owl"

section \<open>Tap threads\<close>

text \<open>What the tap threads share: the servers (\<open>'w\<close>), the statistics and the clock.\<close>

record 'w shared =
  sh_world :: 'w
  sh_global :: global_stats
  sh_conns :: per_conn_stats
  sh_ticks :: nat

text \<open>
  What is logged, with the vbuckets of a tap, and the calls on the alarm. The start of a tap is
  recorded together with its outcome: \<open>TapStarted\<close> when its thread was created, \<open>TapNotStarted\<close> when
  that failed. \<open>TapNotJoined\<close> is a failure of \<open>pthread_join\<close>. \<open>TapOk\<close> and \<open>TapFailed\<close> carry the name
  that is logged, which is empty after a failure to join.
\<close>

datatype event =
  StartResync | CompleteResync | ResyncFailed | AlarmSet | AlarmClear
| TapStarted server "u16 list" | TapNotStarted server "u16 list" | TapNotJoined server
| TapOk server "u16 list" | TapFailed server

record 'w resync_state =
  rs_shared :: "'w shared"
  rs_log :: "event list"

definition log_event :: "event \<Rightarrow> 'w resync_state \<Rightarrow> 'w resync_state" where
  "log_event e s = s\<lparr>rs_log := rs_log s @ [e]\<rparr>"

text \<open>
  \<open>pthread_join\<close> fails, or yields what the thread returned: null, or its data with the
  \<open>success\<close> flag. A thread handle is named by the data the thread was given.
\<close>

datatype join_result = JoinError int | JoinedNull | Joined bool

record 'w thread_env =
  te_create :: "tap_data \<Rightarrow> 'w shared \<Rightarrow> int \<times> 'w shared"
  te_join :: "tap_data \<Rightarrow> 'w shared \<Rightarrow> (join_result \<times> 'w shared) outcome"

text \<open>What \<open>process_worklist\<close> reads of its surroundings.\<close>

record 'w resync_env =
  re_split_host_port :: "server \<Rightarrow> (string \<times> int) option"
  re_clk :: "nat \<Rightarrow> tick"
  re_threads :: "'w thread_env"
  re_self :: server

definition perform_single_tap :: "'w resync_env \<Rightarrow> server \<Rightarrow> u16 list \<Rightarrow> 'w resync_state \<Rightarrow>
    tap_data option \<times> 'w resync_state" where
  "perform_single_tap env server buckets s =
     (let sh = rs_shared s;
          (conn_stat, conns) = add_connection (re_split_host_port env) (re_clk env (sh_ticks sh)) server buckets (sh_conns sh);
          thread_data = \<lparr>td_tap_server = server, td_local_server = re_self env, td_buckets = buckets,
                         td_conn_stats = conn_stat\<rparr>;
          (rc, sh) = te_create (re_threads env) thread_data (sh\<lparr>sh_conns := conns, sh_ticks := sh_ticks sh + 1\<rparr>);
          s = s\<lparr>rs_shared := sh\<rparr>
      in if rc \<noteq> 0 then (None, log_event (TapNotStarted server buckets) s)
         else (Some thread_data, log_event (TapStarted server buckets) s))"

text \<open>The result and the server name, which stays empty when the join fails.\<close>

definition complete_single_tap :: "'w resync_env \<Rightarrow> tap_data \<Rightarrow> 'w resync_state \<Rightarrow>
    (bool \<times> server \<times> 'w resync_state) outcome" where
  "complete_single_tap env thread_id s =
     bind_outcome (te_join (re_threads env) thread_id (rs_shared s)) (\<lambda>(res, sh).
       case res of
         JoinError rc \<Rightarrow> Returns (False, [], log_event (TapNotJoined (td_tap_server thread_id)) (s\<lparr>rs_shared := sh\<rparr>))
       | JoinedNull \<Rightarrow> Exits 2
       | Joined success \<Rightarrow> Returns (success, td_tap_server thread_id, s\<lparr>rs_shared := sh\<rparr>))"

fun start_taps :: "'w resync_env \<Rightarrow> TapList \<Rightarrow> 'w resync_state \<Rightarrow> tap_data list \<times> 'w resync_state" where
  "start_taps env [] s = ([], s)"
| "start_taps env ((server, buckets) # taps) s =
     (let (handle, s) = perform_single_tap env server buckets s;
          (tap_handles, s) = start_taps env taps s
      in (case handle of None \<Rightarrow> tap_handles | Some h \<Rightarrow> h # tap_handles, s))"

fun complete_taps :: "'w resync_env \<Rightarrow> TapList \<Rightarrow> tap_data list \<Rightarrow>
    OutstandingWorkList \<times> int set \<times> 'w resync_state \<Rightarrow>
    (OutstandingWorkList \<times> int set \<times> 'w resync_state) outcome" where
  "complete_taps env taps [] x = Returns x"
| "complete_taps env taps (handle # tap_handles) (owl, unstreamed_buckets, s) =
     bind_outcome (complete_single_tap env handle s) (\<lambda>(success, server, s).
       complete_taps env taps tap_handles
         (if success
          then (owl, unstreamed_buckets - uint ` set (smap_get [] taps server),
                log_event (TapOk server (smap_get [] taps server)) s)
          else (blacklist_server owl server, unstreamed_buckets, log_event (TapFailed server) s)))"

section \<open>Termination\<close>

definition owl_size :: "OutstandingWorkList \<Rightarrow> nat" where
  "owl_size owl = (\<Sum>e \<leftarrow> owl. length (snd e))"

lemma owl_size_simps [simp]:
  "owl_size [] = 0" "owl_size (e # owl) = length (snd e) + owl_size owl"
  by (simp_all add: owl_size_def)

lemma owl_total_buckets_size: "owl_total_buckets owl = int (owl_size owl)"
proof -
  have "fold (\<lambda>(b, servers) n. n + int (length servers)) owl n = n + int (owl_size owl)" for n
    by (induction owl arbitrary: n) auto
  then show ?thesis by (simp add: owl_total_buckets_def)
qed

lemma owl_empty_iff_size: "owl_empty owl \<longleftrightarrow> owl_size owl = 0"
  by (induction owl) (auto simp: owl_empty_def)

definition owl_tail :: "OutstandingWorkList \<Rightarrow> OutstandingWorkList" where
  "owl_tail owl = map (\<lambda>(b, servers). (b, tl servers)) owl"

lemma calculate_taps_owl: "snd (calculate_taps owl) = owl_tail owl"
proof -
  have "snd (calculate_taps_loop owl t) = owl_tail owl" for t
    by (induction owl t rule: calculate_taps_loop.induct) (auto simp: owl_tail_def split: prod.splits)
  then show ?thesis by (simp add: calculate_taps_def)
qed

lemma owl_size_tail_le: "owl_size (owl_tail owl) \<le> owl_size owl"
  by (induction owl) (auto simp: owl_tail_def)

lemma owl_size_tail: "\<not> owl_empty owl \<Longrightarrow> owl_size (owl_tail owl) < owl_size owl"
proof (induction owl)
  case (Cons e owl)
  then show ?case
    using owl_size_tail_le [of owl]
    by (cases e; cases "snd e") (auto simp: owl_tail_def owl_empty_def less_imp_le intro: le_less_trans)
qed (simp add: owl_empty_def)

lemma owl_size_blacklist: "owl_size (blacklist_server owl server) \<le> owl_size owl"
  by (induction owl) (auto simp: blacklist_server_def intro: add_mono length_filter_le)

lemma complete_taps_size:
  "complete_taps env taps hs (owl, un, s) = Returns (owl', un', s') \<Longrightarrow> owl_size owl' \<le> owl_size owl"
proof (induction hs arbitrary: owl un s)
  case (Cons h hs)
  then obtain success server s1 where "complete_taps env taps hs
        (if success then (owl, un - uint ` set (smap_get [] taps server),
           log_event (TapOk server (smap_get [] taps server)) s1)
         else (blacklist_server owl server, un, log_event (TapFailed server) s1)) = Returns (owl', un', s')"
    by (auto simp: bind_outcome_Returns_iff)
  then show ?case
    by (cases success) (auto dest!: Cons.IH intro: order_trans [OF _ owl_size_blacklist])
qed simp

function process_rounds :: "'w resync_env \<Rightarrow> OutstandingWorkList \<Rightarrow> int set \<Rightarrow> 'w resync_state \<Rightarrow>
    (int set \<times> 'w resync_state) outcome" where
  "process_rounds env owl unstreamed_buckets s =
     (if owl_empty owl then Returns (unstreamed_buckets, s)
      else
        let (taps, owl) = calculate_taps owl;
            (tap_handles, s) = start_taps env taps s
        in bind_outcome (complete_taps env taps tap_handles (owl, unstreamed_buckets, s))
             (\<lambda>(owl, unstreamed_buckets, s). process_rounds env owl unstreamed_buckets s))"
  by pat_completeness auto
termination
proof (relation "measure (\<lambda>(env, owl, un, s). owl_size owl)", goal_cases)
  case (2 env owl un s x taps owl1 y hs s1 z owl2 w un2 s2)
  then have "owl_size owl2 \<le> owl_size owl1" by (auto intro: complete_taps_size)
  moreover have "owl_size owl1 < owl_size owl"
    using 2 calculate_taps_owl [of owl] owl_size_tail [of owl] by (metis snd_conv)
  ultimately show ?case by simp
qed simp

declare process_rounds.simps [simp del]

definition process_worklist :: "'w resync_env \<Rightarrow> OutstandingWorkList \<Rightarrow> 'w resync_state \<Rightarrow>
    'w resync_state outcome" where
  "process_worklist env owl s =
     bind_outcome (process_rounds env owl (uint ` fst ` set owl) s) (\<lambda>(unstreamed_buckets, s).
       Returns (if unstreamed_buckets = {} then s else log_event ResyncFailed s))"

text \<open>
  \<open>do_resync\<close>. \<open>alarm\<close> says whether \<open>_alarm\<close> is not null. The work list counts
  replicas of at most 65536 vbuckets, far below the range of \<open>int\<close>.
\<close>

definition log_alarm :: "bool \<Rightarrow> event \<Rightarrow> 'w resync_state \<Rightarrow> 'w resync_state" where
  "log_alarm alarm e s = (if alarm then log_event e s else s)"

definition reset_stats :: "(nat \<Rightarrow> tick) \<Rightarrow> 'w resync_state \<Rightarrow> 'w resync_state" where
  "reset_stats clk s =
     (let sh = rs_shared s; n = sh_ticks sh
      in s\<lparr>rs_shared := sh\<lparr>sh_global := gs_reset (fst (clk n)) (clk (n + 1)) (sh_global sh),
                          sh_conns := pc_reset (fst (clk (n + 2))) (clk (n + 3)) (sh_conns sh),
                          sh_ticks := n + 4\<rparr>\<rparr>)"

definition do_resync :: "'w resync_env \<Rightarrow> bool \<Rightarrow> view \<Rightarrow> bool \<Rightarrow> 'w resync_state \<Rightarrow> 'w resync_state outcome" where
  "do_resync env alarm view full_resync s =
     (let owl = calculate_worklist (re_self env) view full_resync
      in if owl = [] then Returns s
         else
           let sh = rs_shared s;
               s = s\<lparr>rs_shared := sh\<lparr>sh_global := gs_set_total_buckets (re_clk env (sh_ticks sh))
                        (word_of_int (owl_total_buckets owl)) (sh_global sh),
                      sh_ticks := sh_ticks sh + 1\<rparr>\<rparr>;
               s = log_event StartResync s;
               s = log_alarm alarm AlarmSet s
           in bind_outcome (process_worklist env owl s) (\<lambda>s.
                let s = log_alarm alarm AlarmClear s;
                    s = log_event CompleteResync s
                in Returns (reset_stats (re_clk env) s)))"

section \<open>The work list of a resync\<close>

definition wants :: "bool \<Rightarrow> server \<Rightarrow> (int, ReplicaList) smap \<Rightarrow> int \<times> ReplicaList \<Rightarrow> bool" where
  "wants full_resync self current_replicas it \<longleftrightarrow>
     self \<in> set (snd it) \<and> source_replicas full_resync self current_replicas (fst it) \<noteq> [] \<and>
     self \<notin> set (source_replicas full_resync self current_replicas (fst it))"

lemma worklist_step_eq:
  "worklist_step full self cur it owl =
     (if wants full self cur it
      then smap_upd (word_of_int (fst it)) (source_replicas full self cur (fst it)) owl else owl)"
  by (simp add: worklist_step_def wants_def is_in_vector_def Let_def)

lemma fold_worklist_step:
  "fold (worklist_step full self cur) new owl =
     fold (\<lambda>(k, v). smap_upd k v)
       (map (\<lambda>it. (word_of_int (fst it), source_replicas full self cur (fst it)))
         (filter (wants full self cur) new)) owl"
  by (induction new arbitrary: owl) (auto simp: worklist_step_eq)

text \<open>The replica lists in force after the resync, and vbuckets that fit a \<open>uint16_t\<close>.\<close>

definition target_replicas :: "view \<Rightarrow> (int, ReplicaList) smap" where
  "target_replicas v = (if v_new_replicas v = [] then v_current_replicas v else v_new_replicas v)"

definition view_ok :: "view \<Rightarrow> bool" where
  "view_ok v \<longleftrightarrow> smap_ok (v_current_replicas v) \<and> smap_ok (v_new_replicas v) \<and>
     (\<forall>k \<in> fst ` set (v_current_replicas v) \<union> fst ` set (v_new_replicas v). 0 \<le> k \<and> k < 2 ^ 16)"

lemma view_ok_target:
  assumes "view_ok v"
  shows "smap_ok (target_replicas v)" "k \<in> fst ` set (target_replicas v) \<Longrightarrow> 0 \<le> k \<and> k < 2 ^ 16"
  using assms by (cases "v_new_replicas v = []"; auto simp: view_ok_def target_replicas_def)+

lemma u16_key_eq:
  assumes "0 \<le> k" "k < 2 ^ 16"
  shows "word_of_int k = (b :: u16) \<longleftrightarrow> k = uint b"
proof
  assume "word_of_int k = b"
  then show "k = uint b"
    using assms by (auto simp: uint_word_of_int_eq take_bit_int_eq_self)
qed simp

lemma calculate_worklist_ok: "smap_ok (calculate_worklist self v full)"
  unfolding calculate_worklist_def Let_def fold_worklist_step
  by (rule smap.inv_insert_all) simp

lemma find_wanted:
  assumes "smap_ok new" "\<And>k. k \<in> fst ` set new \<Longrightarrow> 0 \<le> k \<and> k < 2 ^ 16"
  shows "map_of (rev (map (\<lambda>it. (word_of_int (fst it) :: u16, source_replicas full self cur (fst it)))
      (filter (wants full self cur) new))) b =
    (case map_of new (uint b) of
       None \<Rightarrow> None
     | Some owners \<Rightarrow> if wants full self cur (uint b, owners)
         then Some (source_replicas full self cur (uint b)) else None)"
  using assms
proof (induction new)
  case (Cons it new)
  have key: "word_of_int (fst it) = b \<longleftrightarrow> fst it = uint b"
    using Cons.prems(2) [of "fst it"] by (intro u16_key_eq) auto
  have "map_of new (fst it) = None"
    using Cons.prems(1) by (auto simp: smap_ok_Cons map_of_eq_None_iff)
  moreover have "smap_ok new" "\<And>k. k \<in> fst ` set new \<Longrightarrow> 0 \<le> k \<and> k < 2 ^ 16"
    using Cons.prems by (auto simp: smap_ok_Cons)
  ultimately show ?case
    using Cons.IH key by (cases it) (auto simp: map_add_def split: option.splits)
qed simp

lemma calculate_worklist_find:
  assumes "view_ok v"
  shows "map_of (calculate_worklist self v full) b =
    (case map_of (target_replicas v) (uint b) of
       None \<Rightarrow> None
     | Some owners \<Rightarrow>
         if wants full self (v_current_replicas v) (uint b, owners)
         then Some (source_replicas full self (v_current_replicas v) (uint b)) else None)"
proof -
  have "calculate_worklist self v full =
      fold (worklist_step full self (v_current_replicas v)) (target_replicas v) []"
    by (simp add: calculate_worklist_def target_replicas_def Let_def)
  then show ?thesis
    using find_wanted [OF view_ok_target [OF assms]]
    by (simp only: fold_worklist_step smap.find_insert_all) (simp split: option.splits)
qed

section \<open>One round of taps\<close>

lemma smap_get_upd: "smap_get d (smap_upd k v m) k' = (if k' = k then v else smap_get d m k')"
  by (simp add: smap_get_def)

text \<open>The vbuckets whose first outstanding replica is \<open>server\<close>.\<close>

definition first_at :: "server \<Rightarrow> OutstandingWorkList \<Rightarrow> u16 list" where
  "first_at server owl = map fst (filter (\<lambda>(b, servers). servers \<noteq> [] \<and> hd servers = server) owl)"

lemma calculate_taps_loop_spec:
  shows "smap_ok m \<Longrightarrow> smap_ok (fst (calculate_taps_loop owl m))"
    and "smap_get [] (fst (calculate_taps_loop owl m)) server = smap_get [] m server @ first_at server owl"
    and "server \<in> fst ` set (fst (calculate_taps_loop owl m)) \<longleftrightarrow>
      server \<in> fst ` set m \<or> first_at server owl \<noteq> []"
  by (induction owl m rule: calculate_taps_loop.induct)
    (auto simp: first_at_def smap_get_upd split: prod.splits if_splits)

lemma calculate_taps_spec:
  shows "smap_ok (fst (calculate_taps owl))"
    and "(server, bs) \<in> set (fst (calculate_taps owl)) \<longleftrightarrow> bs = first_at server owl \<and> bs \<noteq> []"
    and "smap_get [] (fst (calculate_taps owl)) server = first_at server owl"
proof -
  let ?taps = "fst (calculate_taps owl)"
  show ok: "smap_ok ?taps"
    by (simp add: calculate_taps_def calculate_taps_loop_spec(1))
  show get: "smap_get [] ?taps server = first_at server owl"
    by (simp add: calculate_taps_def calculate_taps_loop_spec(2)) (simp add: smap_get_def)
  have keys: "server \<in> fst ` set ?taps \<longleftrightarrow> first_at server owl \<noteq> []"
    by (simp add: calculate_taps_def calculate_taps_loop_spec(3))
  then have none: "map_of ?taps server = None \<longleftrightarrow> first_at server owl = []"
    by (simp add: map_of_eq_None_iff)
  have "(server, bs) \<in> set ?taps \<longleftrightarrow> map_of ?taps server = Some bs"
    using smap_map_of_iff [OF ok] by blast
  also have "\<dots> \<longleftrightarrow> bs = first_at server owl \<and> bs \<noteq> []"
    using get none by (cases "map_of ?taps server") (auto simp: smap_get_def)
  finally show "(server, bs) \<in> set ?taps \<longleftrightarrow> bs = first_at server owl \<and> bs \<noteq> []" .
qed

lemma in_first_at:
  "smap_ok owl \<Longrightarrow> b \<in> set (first_at server owl) \<longleftrightarrow> (\<exists>rest. map_of owl b = Some (server # rest))"
  by (auto simp: first_at_def smap_map_of_iff neq_Nil_conv intro!: rev_image_eqI)

text \<open>
  What a trace shows: the servers that were to be tapped for a vbucket, those among them for which
  a thread was created, and the vbuckets streamed.
\<close>

definition attempted_for :: "u16 \<Rightarrow> event list \<Rightarrow> server list" where
  "attempted_for b evs =
     concat (map (\<lambda>e. case e of TapStarted server bs \<Rightarrow> if b \<in> set bs then [server] else []
                     | TapNotStarted server bs \<Rightarrow> if b \<in> set bs then [server] else [] | _ \<Rightarrow> []) evs)"

definition tapped_for :: "u16 \<Rightarrow> event list \<Rightarrow> server list" where
  "tapped_for b evs =
     concat (map (\<lambda>e. case e of TapStarted server bs \<Rightarrow> if b \<in> set bs then [server] else [] | _ \<Rightarrow> []) evs)"

definition streamed :: "event list \<Rightarrow> u16 set" where
  "streamed evs = (\<Union>e \<in> set evs. case e of TapOk server bs \<Rightarrow> set bs | _ \<Rightarrow> {})"

text \<open>The events of the starts, given for which taps the thread could be created.\<close>

definition start_events :: "(server \<Rightarrow> bool) \<Rightarrow> TapList \<Rightarrow> event list" where
  "start_events created taps =
     map (\<lambda>(server, bs). if created server then TapStarted server bs else TapNotStarted server bs) taps"

lemma attempted_for_append [simp]: "attempted_for b (xs @ ys) = attempted_for b xs @ attempted_for b ys"
  by (simp add: attempted_for_def)

lemma tapped_for_attempted: "subseq (tapped_for b evs) (attempted_for b evs)"
proof (induction evs)
  case (Cons e evs)
  have "tapped_for b (e # evs) = tapped_for b [e] @ tapped_for b evs"
      "attempted_for b (e # evs) = attempted_for b [e] @ attempted_for b evs"
    by (simp_all add: tapped_for_def attempted_for_def)
  moreover have "subseq (tapped_for b [e]) (attempted_for b [e])"
    by (cases e) (auto simp: tapped_for_def attempted_for_def)
  ultimately show ?case using Cons by (simp only: list_emb_append_mono)
qed (simp add: tapped_for_def)

lemma tapped_for_all:
  "\<forall>server bs. TapNotStarted server bs \<notin> set evs \<Longrightarrow> tapped_for b evs = attempted_for b evs"
  by (induction evs) (auto simp: tapped_for_def attempted_for_def split: event.splits)

lemma streamed_append [simp]: "streamed (xs @ ys) = streamed xs \<union> streamed ys"
  by (simp add: streamed_def)

lemma streamed_start [simp]: "streamed (start_events created taps) = {}"
  by (auto simp: streamed_def start_events_def split: if_splits)

lemma attempted_for_one:
  assumes "distinct (map fst taps)" "\<And>server bs. (server, bs) \<in> set taps \<Longrightarrow> b \<in> set bs \<longleftrightarrow> server = s0"
  shows "attempted_for b (start_events created taps) = (if s0 \<in> fst ` set taps then [s0] else [])"
  using assms
proof (induction taps)
  case (Cons tap taps)
  obtain server bs where tap: "tap = (server, bs)" by (cases tap)
  have "attempted_for b (start_events created taps) = (if s0 \<in> fst ` set taps then [s0] else [])"
    using Cons by auto
  moreover have "b \<in> set bs \<longleftrightarrow> server = s0" using Cons.prems(2) tap by simp
  ultimately show ?case
    using Cons.prems(1) tap by (auto simp: attempted_for_def start_events_def)
qed (simp add: attempted_for_def start_events_def)

lemma attempted_for_taps:
  assumes "smap_ok owl"
  shows "attempted_for b (start_events created (fst (calculate_taps owl))) = take 1 (smap_get [] owl b)"
proof (cases "smap_get [] owl b")
  case Nil
  then have "b \<notin> set (first_at server owl)" for server
    using assms by (auto simp: in_first_at smap_get_def)
  then have "b \<notin> set bs" if "(server, bs) \<in> set (fst (calculate_taps owl))" for server bs
    using that by (simp add: calculate_taps_spec(2))
  then show ?thesis
    using Nil by (auto simp: attempted_for_def start_events_def concat_eq_Nil_conv)
next
  case (Cons s0 rest)
  then have find: "map_of owl b = Some (s0 # rest)"
    by (auto simp: smap_get_def split: option.splits)
  then have b: "b \<in> set (first_at server owl) \<longleftrightarrow> server = s0" for server
    using assms by (auto simp: in_first_at)
  then have "first_at s0 owl \<noteq> []" by (metis list.set(1) empty_iff)
  then have "(s0, first_at s0 owl) \<in> set (fst (calculate_taps owl))"
    using calculate_taps_spec(2) by blast
  then have "s0 \<in> fst ` set (fst (calculate_taps owl))" by (rule rev_image_eqI) simp
  moreover have "b \<in> set bs \<longleftrightarrow> server = s0" if "(server, bs) \<in> set (fst (calculate_taps owl))" for server bs
    using that b by (simp add: calculate_taps_spec(2))
  ultimately show ?thesis
    using attempted_for_one [OF smap_ok_distinct [OF calculate_taps_spec(1)], of owl b s0] Cons by simp
qed

lemma start_events_Cons:
  "server \<notin> fst ` set taps \<Longrightarrow> start_events (created(server := c)) ((server, bs) # taps) =
     (if c then TapStarted server bs else TapNotStarted server bs) # start_events created taps"
  by (auto simp: start_events_def rev_image_eqI)

lemma start_taps_spec:
  "start_taps env taps s = (hs, s') \<Longrightarrow> distinct (map fst taps) \<Longrightarrow>
     (\<exists>created. rs_log s' = rs_log s @ start_events created taps) \<and>
     (\<forall>h \<in> set hs. (td_tap_server h, td_buckets h) \<in> set taps)"
proof (induction env taps s arbitrary: hs s' rule: start_taps.induct)
  case (2 env server buckets taps s)
  obtain h s1 where p: "perform_single_tap env server buckets s = (h, s1)"
    by (cases "perform_single_tap env server buckets s")
  then obtain c where one: "rs_log s1 = rs_log s @ [if c then TapStarted server buckets else TapNotStarted server buckets]"
      "h = None \<or> (\<exists>d. h = Some d \<and> td_tap_server d = server \<and> td_buckets d = buckets)"
    by (fastforce simp: perform_single_tap_def log_event_def Let_def split: prod.splits if_splits)
  obtain hs1 s2 where rest: "start_taps env taps s1 = (hs1, s2)"
    by (cases "start_taps env taps s1")
  have ends: "hs = (case h of None \<Rightarrow> hs1 | Some h \<Rightarrow> h # hs1)" "s' = s2"
    using 2(2) p rest by simp_all
  obtain created where ih: "rs_log s2 = rs_log s1 @ start_events created taps"
      "\<forall>h \<in> set hs1. (td_tap_server h, td_buckets h) \<in> set taps"
    using 2(1) [OF p [symmetric] refl rest] 2(3) by auto
  have "rs_log s' = rs_log s @ start_events (created(server := c)) ((server, buckets) # taps)"
    using 2(3) by (subst start_events_Cons) (auto simp: one(1) ih(1) ends(2))
  moreover have "\<forall>h \<in> set hs. (td_tap_server h, td_buckets h) \<in> set ((server, buckets) # taps)"
    using one(2) ih(2) ends(1) by auto
  ultimately show ?case by blast
qed (simp add: start_events_def)

text \<open>The servers a trace shows as failed are gone from the work list that is left.\<close>

definition drop_failed :: "event list \<Rightarrow> OutstandingWorkList \<Rightarrow> OutstandingWorkList" where
  "drop_failed evs owl = map (\<lambda>(b, servers). (b, filter (\<lambda>s. TapFailed s \<notin> set evs) servers)) owl"

lemma drop_failed_simps:
  "drop_failed [] owl = owl"
  "drop_failed evs (blacklist_server owl server) = drop_failed (TapFailed server # evs) owl"
  "drop_failed (TapOk server bs # evs) owl = drop_failed evs owl"
  "drop_failed (TapNotJoined server # evs) owl = drop_failed evs owl"
  by (simp_all add: drop_failed_def blacklist_server_def split_def comp_def conj_commute)

lemma complete_single_tap_log:
  "complete_single_tap env h s = Returns (success, server, s') \<Longrightarrow>
     rs_log s' = rs_log s \<and> server = td_tap_server h \<or>
     rs_log s' = rs_log s @ [TapNotJoined (td_tap_server h)] \<and> \<not> success \<and> server = []"
  by (cases "te_join (re_threads env) h (rs_shared s)")
    (auto simp: complete_single_tap_def log_event_def split: prod.splits join_result.splits)

text \<open>
  What the completion of taps logs: a success of a thread that was joined, a failure of one that
  was joined, or a failure to join and with it a failure of nobody.
\<close>

inductive completion_log :: "TapList \<Rightarrow> server set \<Rightarrow> event list \<Rightarrow> bool" for taps servers where
  none: "completion_log taps servers []"
| ok: "completion_log taps servers evs \<Longrightarrow> server \<in> servers \<Longrightarrow>
    completion_log taps servers (TapOk server (smap_get [] taps server) # evs)"
| failed: "completion_log taps servers evs \<Longrightarrow> server \<in> servers \<Longrightarrow> completion_log taps servers (TapFailed server # evs)"
| not_joined: "completion_log taps servers evs \<Longrightarrow> server \<in> servers \<Longrightarrow>
    completion_log taps servers (TapNotJoined server # TapFailed [] # evs)"

lemma completion_log_mono: "completion_log taps A evs \<Longrightarrow> A \<subseteq> B \<Longrightarrow> completion_log taps B evs"
  by (induction rule: completion_log.induct) (auto intro: completion_log.intros)

lemma completion_log_events:
  "completion_log taps servers evs \<Longrightarrow>
     \<forall>e \<in> set evs. (\<exists>s. e = TapFailed s) \<or> (\<exists>s bs. e = TapOk s bs) \<or> (\<exists>s. e = TapNotJoined s)"
  by (induction rule: completion_log.induct) auto

lemma complete_taps_spec:
  "complete_taps env taps hs (owl, un, s) = Returns (owl', un', s') \<Longrightarrow>
     \<exists>evs. rs_log s' = rs_log s @ evs \<and> owl' = drop_failed evs owl \<and> un' = un - uint ` streamed evs \<and>
       completion_log taps (td_tap_server ` set hs) evs"
proof (induction hs arbitrary: owl un s)
  case Nil
  then show ?case
    by (intro exI [of _ "[]"]) (auto simp: drop_failed_simps streamed_def intro: completion_log.none)
next
  case (Cons h hs)
  then obtain success server s1 where one: "complete_single_tap env h s = Returns (success, server, s1)"
    and rest: "complete_taps env taps hs
        (if success then (owl, un - uint ` set (smap_get [] taps server),
           log_event (TapOk server (smap_get [] taps server)) s1)
         else (blacklist_server owl server, un, log_event (TapFailed server) s1)) = Returns (owl', un', s')"
    by (auto simp: bind_outcome_Returns_iff)
  let ?owl = "if success then owl else blacklist_server owl server"
  let ?un = "if success then un - uint ` set (smap_get [] taps server) else un"
  let ?e = "if success then TapOk server (smap_get [] taps server) else TapFailed server"
  have "complete_taps env taps hs (?owl, ?un, log_event ?e s1) = Returns (owl', un', s')"
    using rest by (cases success) simp_all
  from Cons.IH [OF this] obtain evs where evs: "rs_log s' = rs_log s1 @ ?e # evs" "owl' = drop_failed evs ?owl"
      "un' = ?un - uint ` streamed evs" "completion_log taps (td_tap_server ` set hs) evs"
    by (auto simp: log_event_def)
  have log: "completion_log taps (td_tap_server ` set (h # hs)) evs" by (rule completion_log_mono [OF evs(4)]) auto
  have left: "owl' = drop_failed (?e # evs) owl" "un' = un - uint ` streamed (?e # evs)"
    using evs(2,3) by (auto simp: drop_failed_simps streamed_def)
  from complete_single_tap_log [OF one] show ?case
  proof (elim disjE conjE)
    assume "rs_log s1 = rs_log s" "server = td_tap_server h"
    with evs(1) left log show ?thesis
      by (intro exI [of _ "?e # evs"]) (auto intro: completion_log.ok completion_log.failed)
  next
    assume nj: "rs_log s1 = rs_log s @ [TapNotJoined (td_tap_server h)]" "\<not> success" "server = []"
    have "streamed (TapNotJoined (td_tap_server h) # ?e # evs) = streamed (?e # evs)" by (simp add: streamed_def)
    with nj evs(1) left log show ?thesis
      by (intro exI [of _ "TapNotJoined (td_tap_server h) # ?e # evs"])
        (auto simp: drop_failed_simps intro: completion_log.not_joined)
  qed
qed

section \<open>All rounds\<close>

text \<open>The taps of a trace, whether or not the thread was created.\<close>

definition never_started :: "server \<Rightarrow> event list \<Rightarrow> bool" where
  "never_started server evs \<longleftrightarrow> (\<forall>bs. TapStarted server bs \<notin> set evs \<and> TapNotStarted server bs \<notin> set evs)"

text \<open>No server is tapped again once a failure under its name is logged.\<close>

fun respects_blacklist :: "event list \<Rightarrow> bool" where
  "respects_blacklist [] \<longleftrightarrow> True"
| "respects_blacklist (e # evs) \<longleftrightarrow>
     (case e of TapFailed server \<Rightarrow> never_started server evs | _ \<Rightarrow> True) \<and> respects_blacklist evs"

text \<open>A failure to join is followed by a failure under the empty name.\<close>

fun unjoined_unnamed :: "event list \<Rightarrow> bool" where
  "unjoined_unnamed [] \<longleftrightarrow> True"
| "unjoined_unnamed (e # evs) \<longleftrightarrow>
     (case e of TapNotJoined server \<Rightarrow> evs \<noteq> [] \<and> hd evs = TapFailed [] | _ \<Rightarrow> True) \<and> unjoined_unnamed evs"

lemma unjoined_unnamed_append: "unjoined_unnamed xs \<Longrightarrow> unjoined_unnamed ys \<Longrightarrow> unjoined_unnamed (xs @ ys)"
  by (induction xs) (auto split: event.splits)

lemma unjoined_unnamed_split: "unjoined_unnamed (xs @ TapNotJoined server # ys) \<Longrightarrow> \<exists>ys'. ys = TapFailed [] # ys'"
  by (induction xs) (auto simp: neq_Nil_conv)

lemma unjoined_unnamed_none: "\<forall>server. TapNotJoined server \<notin> set evs \<Longrightarrow> unjoined_unnamed evs"
  by (induction evs) (auto split: event.splits)

lemma unjoined_unnamed_completion: "completion_log taps servers evs \<Longrightarrow> unjoined_unnamed evs"
  by (induction rule: completion_log.induct) auto

lemma respects_blacklist_Cons:
  "respects_blacklist (e # evs) \<longleftrightarrow>
     (\<forall>server. e = TapFailed server \<longrightarrow> never_started server evs) \<and> respects_blacklist evs"
  by (auto simp: never_started_def split: event.splits)

lemma respects_blacklist_append:
  "respects_blacklist (xs @ ys) \<longleftrightarrow> respects_blacklist xs \<and> respects_blacklist ys \<and>
     (\<forall>server. TapFailed server \<in> set xs \<longrightarrow> never_started server ys)"
  by (induction xs)
    (auto simp: respects_blacklist_Cons never_started_def simp del: respects_blacklist.simps(2))

text \<open>
  What the trace of a whole resync satisfies with respect to its work list: per vbucket, the
  servers to tap are replicas in the order of the list; without a failure they are the whole
  list; every tap is for some vbucket; failed servers are not tapped again; and a failure to
  join is nobody's.
\<close>

definition is_tap_event :: "event \<Rightarrow> bool" where
  "is_tap_event e \<longleftrightarrow> e \<notin> {StartResync, CompleteResync, ResyncFailed, AlarmSet, AlarmClear}"

definition good_trace :: "OutstandingWorkList \<Rightarrow> event list \<Rightarrow> bool" where
  "good_trace owl evs \<longleftrightarrow>
     (\<forall>b. subseq (attempted_for b evs) (smap_get [] owl b)) \<and>
     ((\<forall>server. TapFailed server \<notin> set evs) \<longrightarrow> (\<forall>b. attempted_for b evs = smap_get [] owl b)) \<and>
     (\<forall>server. TapStarted server [] \<notin> set evs \<and> TapNotStarted server [] \<notin> set evs) \<and>
     respects_blacklist evs \<and> unjoined_unnamed evs \<and> list_all is_tap_event evs"

lemma good_trace_started:
  assumes "good_trace owl evs" "TapStarted server bs \<in> set evs \<or> TapNotStarted server bs \<in> set evs"
  obtains b where "b \<in> set bs" "server \<in> set (smap_get [] owl b)"
proof -
  have "bs \<noteq> []" using assms by (auto simp: good_trace_def)
  then obtain b where b: "b \<in> set bs" by (cases bs) auto
  with assms(2) have "server \<in> set (attempted_for b evs)" by (force simp: attempted_for_def)
  moreover have "subseq (attempted_for b evs) (smap_get [] owl b)"
    using assms(1) by (simp add: good_trace_def)
  ultimately show thesis using b by (auto intro: that elim: list_emb_set)
qed

lemma smap_get_left:
  "smap_get [] (drop_failed evs (owl_tail owl)) b =
     filter (\<lambda>s. TapFailed s \<notin> set evs) (tl (smap_get [] owl b))"
  by (simp only: smap_get_def drop_failed_def owl_tail_def map_of_map comp_def) (simp split: option.splits)

lemma smap_ok_left: "smap_ok (drop_failed evs (owl_tail owl)) \<longleftrightarrow> smap_ok owl"
  by (simp add: drop_failed_def owl_tail_def split_def smap_ok_def comp_def)

lemma good_trace_empty: "owl_empty owl \<Longrightarrow> good_trace owl []"
  by (auto simp: good_trace_def attempted_for_def smap_get_def owl_empty_def list_all_iff
      split: option.splits dest: map_of_SomeD)

lemma subseq_filter_tl: "subseq (take 1 xs @ filter P (tl xs)) xs"
  by (cases xs) (auto intro: subseq_filter_left)

lemma start_events_facts:
  "TapFailed s \<notin> set (start_events created taps)" "TapNotJoined s \<notin> set (start_events created taps)"
  "respects_blacklist (start_events created taps)" "list_all is_tap_event (start_events created taps)"
proof -
  show "respects_blacklist (start_events created taps)"
    by (induction taps) (auto simp: start_events_def)
qed (auto simp: start_events_def list_all_iff is_tap_event_def split: if_splits)

lemma completion_log_facts:
  assumes "completion_log taps servers dn"
  shows "attempted_for b dn = []" "TapStarted s bs \<notin> set dn" "TapNotStarted s bs \<notin> set dn"
    "respects_blacklist dn" "list_all is_tap_event dn"
proof -
  note events = completion_log_events [OF assms]
  show no: "TapStarted s bs \<notin> set dn" "TapNotStarted s bs \<notin> set dn" for s bs using events by auto
  show "attempted_for b dn = []" "list_all is_tap_event dn"
    using events by (auto simp: attempted_for_def concat_eq_Nil_conv list_all_iff is_tap_event_def)
  show "respects_blacklist dn"
    using no by (induction dn) (auto simp: respects_blacklist_Cons never_started_def simp del: respects_blacklist.simps(2))
qed

lemma round_respects_blacklist:
  assumes dn: "completion_log taps servers dn" and good: "good_trace (drop_failed dn (owl_tail owl)) evs"
  shows "respects_blacklist (start_events created (fst (calculate_taps owl)) @ dn @ evs)"
proof -
  have "never_started s evs" if "TapFailed s \<in> set dn" for s
    unfolding never_started_def
  proof (intro allI, rule ccontr)
    fix bs assume "\<not> (TapStarted s bs \<notin> set evs \<and> TapNotStarted s bs \<notin> set evs)"
    then obtain b where "s \<in> set (smap_get [] (drop_failed dn (owl_tail owl)) b)"
      using good_trace_started [OF good] by blast
    with that show False by (simp add: smap_get_left)
  qed
  then show ?thesis
    using good completion_log_facts(4) [OF dn] start_events_facts
    by (auto simp: respects_blacklist_append good_trace_def)
qed

lemma good_trace_round:
  assumes ok: "smap_ok owl" and dn: "completion_log taps servers dn"
    and good: "good_trace (drop_failed dn (owl_tail owl)) evs"
  shows "good_trace owl (start_events created (fst (calculate_taps owl)) @ dn @ evs)"
proof -
  let ?start = "start_events created (fst (calculate_taps owl))" and ?left = "drop_failed dn (owl_tail owl)"
  note facts = start_events_facts(1,2) [of _ created "fst (calculate_taps owl)"]
    start_events_facts(4) [of created "fst (calculate_taps owl)"] completion_log_facts [OF dn]
  have starts: "TapStarted s [] \<notin> set ?start" "TapNotStarted s [] \<notin> set ?start" for s
    using calculate_taps_spec(2) [of s "[]" owl] by (auto simp: start_events_def split: if_splits)
  have "respects_blacklist (?start @ dn @ evs)" by (rule round_respects_blacklist [OF dn good])
  moreover have "unjoined_unnamed (?start @ dn @ evs)"
    using good facts(2) unjoined_unnamed_completion [OF dn]
    by (simp add: good_trace_def unjoined_unnamed_append unjoined_unnamed_none)
  moreover have "attempted_for b (?start @ dn @ evs) = take 1 (smap_get [] owl b) @ attempted_for b evs" for b
    by (simp add: attempted_for_taps [OF ok] facts)
  moreover have "subseq (take 1 (smap_get [] owl b) @ attempted_for b evs) (smap_get [] owl b)" for b
  proof -
    have "subseq (attempted_for b evs) (smap_get [] ?left b)"
      using good by (simp add: good_trace_def)
    then have "subseq (take 1 (smap_get [] owl b) @ attempted_for b evs)
        (take 1 (smap_get [] owl b) @ smap_get [] ?left b)"
      by (intro list_emb_append_mono) auto
    then show ?thesis
      using subseq_filter_tl subseq_order.trans unfolding smap_get_left by blast
  qed
  moreover have "take 1 (smap_get [] owl b) @ attempted_for b evs = smap_get [] owl b"
    if "\<forall>server. TapFailed server \<notin> set (?start @ dn @ evs)" for b
  proof -
    have "attempted_for b evs = smap_get [] ?left b" using good that by (simp add: good_trace_def)
    then show ?thesis
      using that by (cases "smap_get [] owl b") (auto simp: smap_get_left)
  qed
  moreover have "TapStarted s [] \<notin> set (?start @ dn @ evs) \<and> TapNotStarted s [] \<notin> set (?start @ dn @ evs)" for s
    using good starts facts by (simp add: good_trace_def)
  moreover have "list_all is_tap_event (?start @ dn @ evs)"
    using good facts by (simp add: good_trace_def)
  ultimately show ?thesis
    unfolding good_trace_def by presburger
qed

lemma process_rounds_trace:
  "process_rounds env owl un s = Returns (un', s') \<Longrightarrow> smap_ok owl \<Longrightarrow>
     \<exists>evs. rs_log s' = rs_log s @ evs \<and> un' = un - uint ` streamed evs \<and> good_trace owl evs"
proof (induction env owl un s arbitrary: un' s' rule: process_rounds.induct)
  case (1 env owl un s)
  show ?case
  proof (cases "owl_empty owl")
    case True
    with 1(2) show ?thesis
      by (auto simp: process_rounds.simps [of env owl] good_trace_empty streamed_def intro!: exI [of _ "[]"])
  next
    case False
    obtain taps where taps: "calculate_taps owl = (taps, owl_tail owl)"
      using calculate_taps_owl [of owl] by (cases "calculate_taps owl") auto
    obtain hs s1 where start: "start_taps env taps s = (hs, s1)" by (cases "start_taps env taps s")
    obtain owl2 un2 s2 where compl: "complete_taps env taps hs (owl_tail owl, un, s1) = Returns (owl2, un2, s2)"
      and rec: "process_rounds env owl2 un2 s2 = Returns (un', s')"
      using 1(2) False taps start
      by (auto simp: process_rounds.simps [of env owl] bind_outcome_Returns_iff)
    obtain dn where dn: "rs_log s2 = rs_log s1 @ dn" "owl2 = drop_failed dn (owl_tail owl)"
        "un2 = un - uint ` streamed dn" "completion_log taps (td_tap_server ` set hs) dn"
      using complete_taps_spec [OF compl] by blast
    obtain evs where evs: "rs_log s' = rs_log s2 @ evs" "un' = un2 - uint ` streamed evs" "good_trace owl2 evs"
      using 1(1) [OF False taps [symmetric] refl start [symmetric] refl compl refl refl rec]
        1(3) dn(2) by (auto simp: smap_ok_left)
    have "distinct (map fst taps)" using smap_ok_distinct [OF calculate_taps_spec(1) [of owl]] taps by simp
    from start_taps_spec [OF start this] obtain created where log: "rs_log s1 = rs_log s @ start_events created taps"
      by blast
    have "good_trace owl (start_events created taps @ dn @ evs)"
      using good_trace_round [OF 1(3) dn(4), of evs created] evs(3) dn(2) taps by simp
    then show ?thesis
      using log dn evs by (intro exI [of _ "start_events created taps @ dn @ evs"]) auto
  qed
qed

section \<open>A resync always comes to its end\<close>

definition joins :: "'w resync_env \<Rightarrow> bool" where
  "joins env \<longleftrightarrow> (\<forall>h sh. \<exists>res sh'. te_join (re_threads env) h sh = Returns (res, sh') \<and> res \<noteq> JoinedNull)"

lemma complete_single_tap_returns:
  assumes "joins env"
  shows "\<exists>success server s'. complete_single_tap env h s = Returns (success, server, s')"
proof -
  obtain res sh' where "te_join (re_threads env) h (rs_shared s) = Returns (res, sh')" "res \<noteq> JoinedNull"
    using assms unfolding joins_def by blast
  then show ?thesis by (cases res) (auto simp: complete_single_tap_def)
qed

lemma complete_taps_returns: "joins env \<Longrightarrow> \<exists>y. complete_taps env taps hs x = Returns y"
proof (induction env taps hs x rule: complete_taps.induct)
  case (2 env taps h hs owl un s)
  obtain success server s1 where one: "complete_single_tap env h s = Returns (success, server, s1)"
    using complete_single_tap_returns [OF 2(2)] by blast
  show ?case
    unfolding complete_taps.simps one bind_outcome.simps prod.case
    using 2(1) [OF one refl refl 2(2)] by simp
qed (unfold complete_taps.simps, blast)

lemma process_rounds_returns: "joins env \<Longrightarrow> \<exists>y. process_rounds env owl un s = Returns y"
proof (induction env owl un s rule: process_rounds.induct)
  case (1 env owl un s)
  show ?case
  proof (cases "owl_empty owl")
    case False
    obtain taps owl1 where taps: "calculate_taps owl = (taps, owl1)" by (cases "calculate_taps owl")
    obtain hs s1 where start: "start_taps env taps s = (hs, s1)" by (cases "start_taps env taps s")
    obtain owl2 un2 s2 where compl: "complete_taps env taps hs (owl1, un, s1) = Returns (owl2, un2, s2)"
      using complete_taps_returns [OF 1(2)] by (metis prod_cases3)
    show ?thesis
      using 1(1) [OF False taps [symmetric] refl start [symmetric] refl compl refl refl 1(2)] False
      by (simp add: process_rounds.simps [of env owl] taps start compl)
  qed (simp add: process_rounds.simps [of env owl])
qed

lemma process_worklist_trace:
  assumes "process_worklist env owl s = Returns s'" "smap_ok owl"
  shows "\<exists>evs. rs_log s' = rs_log s @ evs @ (if fst ` set owl \<subseteq> streamed evs then [] else [ResyncFailed]) \<and>
    good_trace owl evs"
proof -
  obtain un s1 where rounds: "process_rounds env owl (uint ` fst ` set owl) s = Returns (un, s1)"
      and s': "s' = (if un = {} then s1 else log_event ResyncFailed s1)"
    using assms(1) by (auto simp: process_worklist_def bind_outcome_Returns_iff)
  obtain evs where evs: "rs_log s1 = rs_log s @ evs" "un = uint ` fst ` set owl - uint ` streamed evs"
      "good_trace owl evs"
    using process_rounds_trace [OF rounds assms(2)] by blast
  have "un = {} \<longleftrightarrow> uint ` (fst ` set owl) \<subseteq> uint ` streamed evs"
    unfolding evs(2) by auto
  also have "\<dots> \<longleftrightarrow> fst ` set owl \<subseteq> streamed evs"
    by (rule inj_image_subset_iff) (simp add: inj_def word_uint_eq_iff)
  finally show ?thesis
    using evs s' by (auto simp: log_event_def)
qed

lemma do_resync_log:
  assumes "do_resync env alarm v full s = Returns s'" "calculate_worklist (re_self env) v full \<noteq> []"
  shows "\<exists>s1 s2. process_worklist env (calculate_worklist (re_self env) v full) s1 = Returns s2 \<and>
    rs_log s1 = rs_log s @ StartResync # (if alarm then [AlarmSet] else []) \<and>
    rs_log s' = rs_log s2 @ (if alarm then [AlarmClear] else []) @ [CompleteResync] \<and>
    sh_world (rs_shared s1) = sh_world (rs_shared s) \<and> sh_world (rs_shared s') = sh_world (rs_shared s2) \<and>
    gs_total_buckets (sh_global (rs_shared s1)) =
      ucast (word_of_int (owl_total_buckets (calculate_worklist (re_self env) v full)) :: u32) \<and>
    rs_shared s' = rs_shared (reset_stats (re_clk env) s2)"
  using assms
  by (auto simp: do_resync_def Let_def bind_outcome_Returns_iff log_event_def log_alarm_def reset_stats_def
      gauge_set_def intro!: exI)

lemma gs_reset_zero:
  "gs_total_buckets (gs_reset now t g) = 0" "gs_resynced_bucket_count (gs_reset now t g) = 0"
  "gs_resynced_keys_count (gs_reset now t g) = 0" "gs_resynced_bytes_count (gs_reset now t g) = 0"
  by (simp_all add: gs_reset_def Let_def)

lemma pc_reset_empty: "pc_connections (pc_reset now t p) = []"
  by (simp add: pc_reset_def pc.refresh_eq pc_refreshed_def pc_collate_def pc_read_def)

section \<open>Properties\<close>

text \<open>
  C24: The work list of a resync holds exactly the vbuckets the local server is to own, with
  the replicas to stream them from: the current replicas of the vbucket, less the local server
  in a full resync, provided there are any and the local server is not among them. So the
  local server is never tapped.
\<close>

theorem worklist_exact:
  assumes "view_ok v"
  shows "map_of (calculate_worklist self v full) b = Some rs \<longleftrightarrow>
    (\<exists>owners. map_of (target_replicas v) (uint b) = Some owners \<and> self \<in> set owners) \<and>
    rs = (let current = smap_get [] (v_current_replicas v) (uint b)
          in if full then remove1 self current else current) \<and>
    rs \<noteq> [] \<and> self \<notin> set rs"
  using calculate_worklist_find [OF assms]
  by (auto simp: wants_def source_replicas_def Let_def split: option.splits if_splits)

definition wit_view :: view where
  "wit_view = \<lparr>v_current_replicas = [(0, [''a'', ''b'']), (1, [''b'', ''c''])],
               v_new_replicas = [(0, [''a'', ''b'']), (1, [''a'', ''c''])]\<rparr>"

theorem worklist_exact_witness:
  "map_of (calculate_worklist ''a'' wit_view False) 1 = Some [''b'', ''c'']"
proof -
  have "view_ok wit_view" by (simp add: view_ok_def wit_view_def smap_ok_def)
  from worklist_exact [OF this, of "''a''" False 1 "[''b'', ''c'']"] show ?thesis
    by (simp add: wit_view_def target_replicas_def smap_get_def)
qed

text \<open>
  With no resize in progress a minimal resync has nothing to do: every vbucket the local
  server owns it already has.
\<close>

lemma no_resize_no_minimal_resync:
  assumes "view_ok v" "v_new_replicas v = []"
  shows "calculate_worklist self v False = []"
proof -
  have "map_of (calculate_worklist self v False) b = None" for b
    using calculate_worklist_find [OF assms(1), of self False b] assms(2)
    by (auto simp: target_replicas_def wants_def source_replicas_def smap_get_def split: option.splits)
  then have "map_of (calculate_worklist self v False) = Map.empty" by (intro ext) simp
  then show ?thesis by simp
qed

lemma count_list_distinct: "distinct xs \<Longrightarrow> count_list xs x = (if x \<in> set xs then 1 else 0)"
  by (induction xs) auto

text \<open>
  A round of taps asks for every vbucket that has a replica left exactly once, at the first
  replica, and takes just that replica off the list of the vbucket.
\<close>

lemma round_taps_each_bucket_once:
  assumes "smap_ok owl" "calculate_taps owl = (taps, owl')"
  shows "count_list (smap_get [] taps server) b =
      (if \<exists>rest. map_of owl b = Some (server # rest) then 1 else 0) \<and>
    map_of owl' b = map_option tl (map_of owl b)"
proof -
  have "distinct (first_at server owl)"
    using smap_ok_distinct [OF assms(1)] by (auto simp: first_at_def distinct_map_filter)
  then have "count_list (first_at server owl) b = (if b \<in> set (first_at server owl) then 1 else 0)"
    by (simp add: count_list_distinct)
  moreover have "taps = fst (calculate_taps owl)" "owl' = owl_tail owl"
    using assms(2) calculate_taps_owl [of owl] by simp_all
  ultimately show ?thesis
    using assms(1) by (simp add: calculate_taps_spec(3) in_first_at owl_tail_def map_of_map)
qed

text \<open>
  C13: Provided every tap thread can be joined or its join fails cleanly, processing a work list
  always ends, whatever the outcomes of the taps.
\<close>

theorem process_worklist_returns:
  assumes "joins env"
  shows "\<exists>s'. process_worklist env owl s = Returns s'"
  using process_rounds_returns [OF assms, of owl "uint ` fst ` set owl" s]
  by (auto simp: process_worklist_def)

text \<open>Threads of which those that tap \<open>bad\<close> fail.\<close>

definition wit_resync_env :: "server \<Rightarrow> unit resync_env" where
  "wit_resync_env bad =
     \<lparr>re_split_host_port = wit_shp, re_clk = \<lambda>_. (0, True),
      re_threads = \<lparr>te_create = \<lambda>d sh. (0, sh), te_join = \<lambda>d sh. Returns (Joined (td_tap_server d \<noteq> bad), sh)\<rparr>,
      re_self = ''a''\<rparr>"

definition wit_resync_state :: "unit resync_state" where
  "wit_resync_state =
     \<lparr>rs_shared = \<lparr>sh_world = (), sh_global = ts_global (wit_tap_state ()),
        sh_conns = (ts_per_conn (wit_tap_state ()))\<lparr>pc_connections := []\<rparr>, sh_ticks = 0\<rparr>,
      rs_log = []\<rparr>"

definition wit_owl :: OutstandingWorkList where
  "wit_owl = [(0, [''b'', ''c'']), (1, [''c'', ''b''])]"

lemma wit_joins: "joins (wit_resync_env bad)"
  by (simp add: joins_def wit_resync_env_def)

lemma wit_owl_ok: "smap_ok wit_owl"
  by (simp add: smap_ok_def wit_owl_def)

theorem process_worklist_returns_witness:
  "\<exists>s'. process_worklist (wit_resync_env ''b'') wit_owl wit_resync_state = Returns s'"
  by (rule process_worklist_returns [OF wit_joins])

lemma wit_worklist_returns: "\<exists>s'. process_worklist (wit_resync_env bad) wit_owl wit_resync_state = Returns s'"
  using process_rounds_returns [OF wit_joins, of bad wit_owl "uint ` fst ` set wit_owl" wit_resync_state]
  by (auto simp: process_worklist_def)

text \<open>
  C21: For every vbucket the servers that are to be tapped for it are replicas of its list, in
  the order of the list, each at most once per entry; those for which a thread is created are
  some of them. If no failure of a tap is logged then every replica of the list has its turn, and
  if every thread can be created too, every replica is tapped. A thread that cannot be
  created is passed over: nothing is tapped for its vbuckets in its place but the later replicas
  of the list. No server is tapped again after a failure is logged under its name; that is what
  happens to a server whose thread reports a failure, whereas a thread that cannot be joined
  is logged as a failure under the empty name, so that its server may be tapped again.
\<close>

theorem replicas_tapped_in_order:
  assumes "process_worklist env owl s = Returns s'" "smap_ok owl"
  shows "\<exists>evs. rs_log s' = rs_log s @ evs \<and>
    (\<forall>b. subseq (attempted_for b evs) (smap_get [] owl b) \<and> subseq (tapped_for b evs) (attempted_for b evs)) \<and>
    ((\<forall>server. TapFailed server \<notin> set evs) \<longrightarrow> (\<forall>b. attempted_for b evs = smap_get [] owl b)) \<and>
    ((\<forall>server. TapFailed server \<notin> set evs) \<and> (\<forall>server bs. TapNotStarted server bs \<notin> set evs) \<longrightarrow>
       (\<forall>b. tapped_for b evs = smap_get [] owl b)) \<and>
    (\<forall>xs server ys. evs = xs @ TapFailed server # ys \<longrightarrow> never_started server ys) \<and>
    (\<forall>xs server ys. evs = xs @ TapNotJoined server # ys \<longrightarrow> (\<exists>ys'. ys = TapFailed [] # ys'))"
proof -
  obtain evs fin where evs: "rs_log s' = rs_log s @ evs @ fin" "good_trace owl evs" "fin = [] \<or> fin = [ResyncFailed]"
    using process_worklist_trace [OF assms] by metis
  define all where "all = evs @ fin"
  have fin: "TapFailed s \<notin> set fin" "TapNotJoined s \<notin> set fin" "never_started s fin" "respects_blacklist fin"
      "attempted_for b fin = []" for s b
    using evs(3) by (auto simp: never_started_def attempted_for_def)
  have "respects_blacklist all"
    using evs(2) fin by (simp add: all_def good_trace_def respects_blacklist_append)
  moreover have "unjoined_unnamed all"
    using evs(2) fin(2) by (simp add: all_def good_trace_def unjoined_unnamed_append unjoined_unnamed_none)
  ultimately have "all = xs @ TapFailed server # ys \<Longrightarrow> never_started server ys"
      "all = xs @ TapNotJoined server # ys \<Longrightarrow> \<exists>ys'. ys = TapFailed [] # ys'" for xs server ys
    using unjoined_unnamed_split [of xs server ys] by (simp_all add: respects_blacklist_append)
  moreover have "attempted_for b all = smap_get [] owl b" if "\<forall>server. TapFailed server \<notin> set all" for b
    using that evs(2) fin by (simp add: all_def good_trace_def)
  moreover have "subseq (attempted_for b all) (smap_get [] owl b)" for b
    using evs(2) fin by (simp add: all_def good_trace_def)
  moreover have "rs_log s' = rs_log s @ all" using evs(1) by (simp add: all_def)
  ultimately show ?thesis
    using tapped_for_attempted [of _ all] tapped_for_all [of all] by (intro exI [of _ all]) auto
qed

text \<open>Threads of which that of \<open>bad\<close> cannot be created and the others cannot be joined.\<close>

definition wit_lost_env :: "server \<Rightarrow> unit resync_env" where
  "wit_lost_env bad =
     \<lparr>re_split_host_port = wit_shp, re_clk = \<lambda>_. (0, True),
      re_threads = \<lparr>te_create = \<lambda>d sh. (if td_tap_server d = bad then 11 else 0, sh),
        te_join = \<lambda>d sh. Returns (JoinError 3, sh)\<rparr>,
      re_self = ''a''\<rparr>"

theorem replicas_tapped_in_order_witness:
  "\<exists>s'. process_worklist (wit_lost_env ''b'') wit_owl wit_resync_state = Returns s' \<and>
     subseq (attempted_for 0 (rs_log s')) [''b'', ''c''] \<and> subseq (tapped_for 0 (rs_log s')) (attempted_for 0 (rs_log s'))"
proof -
  have "joins (wit_lost_env ''b'')" by (simp add: joins_def wit_lost_env_def)
  from process_rounds_returns [OF this, of wit_owl "uint ` fst ` set wit_owl" wit_resync_state] obtain s' where
    s': "process_worklist (wit_lost_env ''b'') wit_owl wit_resync_state = Returns s'"
    by (auto simp: process_worklist_def)
  from replicas_tapped_in_order [OF s' wit_owl_ok] have
    "subseq (attempted_for 0 (rs_log s')) (smap_get [] wit_owl 0) \<and>
     subseq (tapped_for 0 (rs_log s')) (attempted_for 0 (rs_log s'))"
    by (auto simp: wit_resync_state_def)
  with s' show ?thesis by (simp add: smap_get_def wit_owl_def)
qed

text \<open>
  The failure of a resync is logged exactly when some vbucket of the work list was not part
  of any successful tap.
\<close>

lemma resync_failed_iff_bucket_unstreamed:
  assumes "process_worklist env owl s = Returns s'" "smap_ok owl"
  shows "\<exists>evs. rs_log s' = rs_log s @ evs \<and>
    (ResyncFailed \<in> set evs \<longleftrightarrow> \<not> fst ` set owl \<subseteq> streamed evs)"
proof -
  obtain evs where evs: "rs_log s' = rs_log s @ evs @ (if fst ` set owl \<subseteq> streamed evs then [] else [ResyncFailed])"
      "good_trace owl evs"
    using process_worklist_trace [OF assms] by blast
  then have "ResyncFailed \<notin> set evs" by (auto simp: good_trace_def list_all_iff is_tap_event_def)
  moreover have "streamed [ResyncFailed] = {}" "streamed [] = {}" by (simp_all add: streamed_def)
  ultimately show ?thesis
    using evs(1)
    by (intro exI [of _ "evs @ (if fst ` set owl \<subseteq> streamed evs then [] else [ResyncFailed])"]) auto
qed

text \<open>
  C28: A resync with work to do raises the alarm before its first tap and clears it after its
  last, logs its start and its end, and ends with the published statistics reset: all global
  counts are 0 and no connection is left. With no work to do it changes nothing.
\<close>

theorem do_resync_brackets:
  assumes "do_resync env True v full s = Returns s'"
  shows "if calculate_worklist (re_self env) v full = [] then s' = s
    else (\<exists>evs. rs_log s' = rs_log s @ [StartResync, AlarmSet] @ evs @ [AlarmClear, CompleteResync] \<and>
            (\<forall>e \<in> set evs. e = ResyncFailed \<or> is_tap_event e)) \<and>
         gs_total_buckets (sh_global (rs_shared s')) = 0 \<and>
         gs_resynced_bucket_count (sh_global (rs_shared s')) = 0 \<and>
         gs_resynced_keys_count (sh_global (rs_shared s')) = 0 \<and>
         gs_resynced_bytes_count (sh_global (rs_shared s')) = 0 \<and>
         pc_connections (sh_conns (rs_shared s')) = []"
proof (cases "calculate_worklist (re_self env) v full = []")
  case True
  with assms show ?thesis by (simp add: do_resync_def Let_def)
next
  case False
  let ?owl = "calculate_worklist (re_self env) v full"
  obtain s1 s2 where s: "process_worklist env ?owl s1 = Returns s2" "rs_log s1 = rs_log s @ [StartResync, AlarmSet]"
      "rs_log s' = rs_log s2 @ [AlarmClear, CompleteResync]" "rs_shared s' = rs_shared (reset_stats (re_clk env) s2)"
    using do_resync_log [OF assms False] by auto
  obtain evs where "rs_log s2 = rs_log s1 @ evs @ (if fst ` set ?owl \<subseteq> streamed evs then [] else [ResyncFailed])"
      "good_trace ?owl evs"
    using process_worklist_trace [OF s(1) calculate_worklist_ok] by blast
  then have "\<exists>evs. rs_log s2 = rs_log s1 @ evs \<and> (\<forall>e \<in> set evs. e = ResyncFailed \<or> is_tap_event e)"
    by (intro exI [of _ "evs @ (if fst ` set ?owl \<subseteq> streamed evs then [] else [ResyncFailed])"])
      (auto simp: good_trace_def list_all_iff)
  then show ?thesis
    using False s by (auto simp: reset_stats_def Let_def gs_reset_zero pc_reset_empty)
qed

theorem do_resync_brackets_witness:
  "\<exists>s'. do_resync (wit_resync_env ''b'') True wit_view False wit_resync_state = Returns s' \<and>
     hd (rs_log s') = StartResync \<and> last (rs_log s') = CompleteResync"
proof -
  have owl: "calculate_worklist (re_self (wit_resync_env ''b'')) wit_view False = [(1, [''b'', ''c''])]"
    by (simp add: calculate_worklist_def wit_view_def worklist_step_def is_in_vector_def
        source_replicas_def smap_get_def wit_resync_env_def)
  have "\<exists>s'. process_worklist (wit_resync_env ''b'') owl s = Returns s'" for owl s
    using process_rounds_returns [OF wit_joins, of "''b''" owl "uint ` fst ` set owl" s]
    by (auto simp: process_worklist_def)
  then obtain s' where s': "do_resync (wit_resync_env ''b'') True wit_view False wit_resync_state = Returns s'"
    unfolding do_resync_def Let_def owl by (auto simp: bind_outcome_Returns_iff) (meson)
  from do_resync_brackets [OF s'] owl have "hd (rs_log s') = StartResync \<and> last (rs_log s') = CompleteResync"
    by (auto simp: wit_resync_state_def)
  with s' show ?thesis by blast
qed

end
