(* ===== verification/Resync_Merge.thy ===== *)
theory Resync_Merge
  imports Resync
begin

text \<open>
  A resync whose threads are the tap threads of theory \<open>Tap\<close>: the work list of
  \<open>Resync\<close> and the merge of \<open>Tap_Merge\<close> put together. The threads of a round run one
  after the other here, in the order they are joined; theory \<open>Tap_Parallel\<close> shows that all other
  schedules leave the same records.
\<close>

section \<open>Tap threads as the environment of a resync\<close>

definition tap_thread_env ::
  "(server \<Rightarrow> (string \<times> int) option) \<Rightarrow> net_env \<Rightarrow> (server \<Rightarrow> net_env) \<Rightarrow> (bytes \<Rightarrow> u32) \<Rightarrow> (nat \<Rightarrow> u32) \<Rightarrow>
    (nat \<Rightarrow> tick) \<Rightarrow> 'm peer \<Rightarrow> (server \<Rightarrow> 't peer) \<Rightarrow> 't \<Rightarrow> 'm thread_env" where
  "tap_thread_env shp local_env tap_env hash oob clk peer tap_peer t =
     \<lparr>te_create = \<lambda>d sh. (0, sh),
      te_join = \<lambda>d sh.
        bind_outcome
          (tap_buckets_thread shp local_env (tap_env (td_tap_server d)) hash oob clk peer
             (tap_peer (td_tap_server d)) t d
             \<lparr>ts_success = False, ts_memcached = sh_world sh,
              ts_local_conn = new_ClientConnection (td_local_server d),
              ts_global = sh_global sh, ts_per_conn = sh_conns sh, ts_ticks = sh_ticks sh\<rparr>)
          (\<lambda>s. Returns (Joined (ts_success s),
             sh\<lparr>sh_world := ts_memcached s, sh_global := ts_global s, sh_conns := ts_per_conn s,
                sh_ticks := ts_ticks s\<rparr>))\<rparr>"

section \<open>A tap thread keeps the records of the other connections\<close>

lemma with_bucket_has:
  "with_bucket i b f s = Some s' \<Longrightarrow> has_buckets j cs s \<Longrightarrow> has_buckets j cs s'"
  by (cases "j = i") (auto simp: with_bucket_def get_bucket_stats_def has_buckets_def)

lemma br_increment_has:
  assumes "has_buckets j cs s"
  shows "br_increment_resynced_keys_count t i b d s = Some s' \<Longrightarrow> has_buckets j cs s'"
    "br_increment_resynced_bytes_count t i b d s = Some s' \<Longrightarrow> has_buckets j cs s'"
    "br_increment_bandwidth t i b d s = Some s' \<Longrightarrow> has_buckets j cs s'"
  using assms
  by (auto simp: br_increment_resynced_keys_count_def br_increment_resynced_bytes_count_def
      br_increment_bandwidth_def dest: with_bucket_has)

lemma count_key_has:
  assumes "count_key clk d vb n s = Returns s'" "has_buckets j cs (ts_per_conn s)"
  shows "has_buckets j cs (ts_per_conn s')"
proof -
  obtain p1 p2 where "br_increment_resynced_keys_count (clk (ts_ticks s + 3)) (td_conn_stats d) vb 1 (ts_per_conn s) = Some p1"
      "br_increment_resynced_bytes_count (clk (ts_ticks s + 4)) (td_conn_stats d) vb n p1 = Some p2"
      "br_increment_bandwidth (clk (ts_ticks s + 5)) (td_conn_stats d) vb n p2 = Some (ts_per_conn s')"
    using assms(1) by (auto simp: count_key_def Let_def bind_eq_Some_conv split: option.splits)
  then show ?thesis
    by (meson assms(2) br_increment_has)
qed

lemma local_round_trip_per_conn:
  "local_round_trip oob peer req s = Returns (st, rsp, s') \<Longrightarrow> ts_per_conn s' = ts_per_conn s"
  by (auto simp: local_round_trip_def bind_outcome_Returns_iff split: prod.splits)

lemma handle_mutate_has:
  assumes "handle_mutate hash oob clk peer d key val flags expiry n s = Returns s'"
    "has_buckets j cs (ts_per_conn s)"
  shows "has_buckets j cs (ts_per_conn s')"
  using assms
  by (auto simp: handle_mutate_def Let_def bind_outcome_Returns_iff
      split: if_splits option.splits write_decision.splits
      dest!: local_round_trip_per_conn dest: count_key_has)

lemma tap_loop_has:
  "tap_loop hash oob clk peer d c s = Returns (s', c') \<Longrightarrow> has_buckets j cs (ts_per_conn s) \<Longrightarrow>
     has_buckets j cs (ts_per_conn s')"
proof (induction hash oob clk peer d c s rule: tap_loop.induct)
  case (1 hash oob clk peer d c s)
  from 1(2) obtain st m c1 where r: "recv oob c = Returns (st, m, c1)"
    by (auto simp: tap_loop.simps [of hash oob clk peer d c s] bind_outcome_Returns_iff)
  show ?case
  proof (cases st)
    case St_OK
    with recv_OK_Some [OF r] obtain msg where m: "m = Some msg" by auto
    show ?thesis
    proof (cases "is_response msg \<or> op_code msg \<noteq> op_byte TAP_MUTATE")
      case True
      with 1(2,3) r m St_OK show ?thesis
        by (auto simp: tap_loop.simps [of hash oob clk peer d c s] simp del: op_byte.simps split: if_splits)
    next
      case False
      with 1(2) r m St_OK obtain s1 where "handle_mutate hash oob clk peer d (m_key (msg_base msg)) (mutate_value msg)
          (mutate_flags msg) (mutate_expiry msg) (of_nat (length (to_wire msg))) s = Returns s1"
        "tap_loop hash oob clk peer d c1 s1 = Returns (s', c')"
        by (auto simp: tap_loop.simps [of hash oob clk peer d c s] bind_outcome_Returns_iff simp del: op_byte.simps)
      with 1(1) [OF r refl refl _ _ m] False St_OK 1(3) handle_mutate_has show ?thesis by blast
    qed
  qed (use 1(2,3) r in \<open>auto simp: tap_loop.simps [of hash oob clk peer d c s]\<close>)
qed

lemma tap_thread_has:
  assumes "tap_buckets_thread shp local_env tap_env hash oob clk peer tap_peer t d s = Returns s'"
    "has_buckets j cs (ts_per_conn s)"
  shows "has_buckets j cs (ts_per_conn s')"
  using assms
  by (auto simp: tap_buckets_thread_def finish_tap_def Let_def bind_outcome_Returns_iff has_buckets_cr_set
      split: if_splits prod.splits dest!: tap_loop_has)

section \<open>The abstract resync\<close>

text \<open>
  The records a server streams for the vbuckets \<open>bs\<close>, one tap of it, and all rounds of taps
  on an abstract store.
\<close>

definition bucket_records :: "(bytes \<Rightarrow> u32) \<Rightarrow> u16 list \<Rightarrow> message list \<Rightarrow> message list" where
  "bucket_records hash bs = filter (\<lambda>m. vbucket_for_key hash (m_key (msg_base m)) \<in> set bs)"

definition tap_merge :: "(bytes \<Rightarrow> u32) \<Rightarrow> (server \<Rightarrow> message list) \<Rightarrow> server \<times> u16 list \<Rightarrow>
    (bytes \<rightharpoonup> rec3) \<Rightarrow> (bytes \<rightharpoonup> rec3)" where
  "tap_merge hash content tap =
     fold (merge_mutation hash (snd tap)) (bucket_records hash (snd tap) (content (fst tap)))"

function abs_rounds :: "(bytes \<Rightarrow> u32) \<Rightarrow> (server \<Rightarrow> message list) \<Rightarrow> OutstandingWorkList \<Rightarrow>
    (bytes \<rightharpoonup> rec3) \<Rightarrow> (bytes \<rightharpoonup> rec3)" where
  "abs_rounds hash content owl st =
     (if owl_empty owl then st
      else abs_rounds hash content (owl_tail owl) (fold (tap_merge hash content) (fst (calculate_taps owl)) st))"
  by pat_completeness auto
termination
  by (relation "measure (\<lambda>(hash, content, owl, st). owl_size owl)") (auto simp: owl_size_tail)

declare abs_rounds.simps [simp del]

text \<open>
  A cluster whose servers can be reached and stream the records they hold in the requested
  vbuckets, perhaps among others, next to a local memcached that keeps its contract.
\<close>

definition good_cluster ::
  "(server \<Rightarrow> (string \<times> int) option) \<Rightarrow> net_env \<Rightarrow> (server \<Rightarrow> net_env) \<Rightarrow> (bytes \<Rightarrow> u32) \<Rightarrow> 'm peer \<Rightarrow>
    ('m \<Rightarrow> bytes \<rightharpoonup> item) \<Rightarrow> (server \<Rightarrow> 't peer) \<Rightarrow> 't \<Rightarrow> bytes \<Rightarrow> server \<Rightarrow> (server \<Rightarrow> message list) \<Rightarrow> bool" where
  "good_cluster shp local_env tap_env hash peer view tap_peer t pre self content \<longleftrightarrow>
     memcached_contract peer view \<and> connects shp local_env self \<and> length pre = 8 \<and>
     (\<forall>r. connects shp (tap_env r) r) \<and>
     (\<forall>r bs. \<exists>ms. streams (tap_peer r) t bs pre ms [] \<and>
        bucket_records hash bs ms = bucket_records hash bs (content r))"

text \<open>Records of other vbuckets in a stream make no difference.\<close>

lemma fold_bucket_records:
  "fold (merge_mutation hash bs) (bucket_records hash bs ms) st = fold (merge_mutation hash bs) ms st"
  by (induction ms arbitrary: st)
    (auto simp: bucket_records_def merge_mutation_def merge_one_def accepted_def)

section \<open>The resync refines the abstract one\<close>

lemma join_merges:
  assumes good: "good_cluster shp local_env tap_env hash peer view tap_peer t pre (td_local_server h) content"
    and "has_buckets (td_conn_stats h) (td_buckets h) (sh_conns sh)" "small (view (sh_world sh))"
  shows "\<exists>sh'. te_join (tap_thread_env shp local_env tap_env hash oob clk peer tap_peer t) h sh =
      Returns (Joined True, sh') \<and> small (view (sh_world sh')) \<and>
    abs_store (view (sh_world sh')) =
      tap_merge hash content (td_tap_server h, td_buckets h) (abs_store (view (sh_world sh))) \<and>
    (\<forall>j cs. has_buckets j cs (sh_conns sh) \<longrightarrow> has_buckets j cs (sh_conns sh'))"
proof -
  let ?r = "td_tap_server h"
  let ?s = "\<lparr>ts_success = False, ts_memcached = sh_world sh,
    ts_local_conn = new_ClientConnection (td_local_server h),
    ts_global = sh_global sh, ts_per_conn = sh_conns sh, ts_ticks = sh_ticks sh\<rparr>"
  obtain ms where ms: "streams (tap_peer ?r) t (td_buckets h) pre ms []"
      "bucket_records hash (td_buckets h) ms = bucket_records hash (td_buckets h) (content ?r)"
    using good unfolding good_cluster_def by blast
  have "memcached_contract peer view" "connects shp local_env (td_local_server h)"
      "connects shp (tap_env ?r) ?r" "cut_short pre []"
    using good by (simp_all add: good_cluster_def cut_short_Nil)
  from tap_thread_merges [where hash = hash and oob = oob and clk = clk and s = ?s, OF this(1) _ this(2,3) ms(1) this(4)]
  obtain s' where s': "tap_buckets_thread shp local_env (tap_env ?r) hash oob clk peer (tap_peer ?r) t h ?s = Returns s'"
      "ts_success s'" "small (view (ts_memcached s'))" "abs_store (view (ts_memcached s')) =
        tap_merge hash content (?r, td_buckets h) (abs_store (view (sh_world sh)))"
    using assms(2,3) by (auto simp: tap_merge_def ms(2) [symmetric] fold_bucket_records)
  with tap_thread_has [OF s'(1)] show ?thesis
    by (simp add: tap_thread_env_def)
qed

definition handle_tap :: "tap_data \<Rightarrow> server \<times> u16 list" where
  "handle_tap h = (td_tap_server h, td_buckets h)"

lemma perform_single_tap_ready:
  assumes "re_threads env = tap_thread_env shp local_env tap_env hash oob clk peer tap_peer t"
  shows "\<exists>h s'. perform_single_tap env server bs s = (Some h, s') \<and> handle_tap h = (server, bs) \<and>
    td_local_server h = re_self env \<and> has_buckets (td_conn_stats h) (td_buckets h) (sh_conns (rs_shared s')) \<and>
    (\<forall>j cs. has_buckets j cs (sh_conns (rs_shared s)) \<longrightarrow> has_buckets j cs (sh_conns (rs_shared s'))) \<and>
    sh_world (rs_shared s') = sh_world (rs_shared s)"
proof -
  obtain i p where add: "add_connection (re_split_host_port env) (re_clk env (sh_ticks (rs_shared s))) server bs
      (sh_conns (rs_shared s)) = (i, p)"
    by fastforce
  with has_buckets_add [OF add] show ?thesis
    by (simp add: perform_single_tap_def assms tap_thread_env_def handle_tap_def log_event_def Let_def)
qed

lemma start_taps_ready:
  assumes "re_threads env = tap_thread_env shp local_env tap_env hash oob clk peer tap_peer t"
  shows "\<exists>hs s'. start_taps env taps s = (hs, s') \<and> map handle_tap hs = taps \<and>
    (\<forall>h \<in> set hs. td_local_server h = re_self env \<and>
       has_buckets (td_conn_stats h) (td_buckets h) (sh_conns (rs_shared s'))) \<and>
    (\<forall>j cs. has_buckets j cs (sh_conns (rs_shared s)) \<longrightarrow> has_buckets j cs (sh_conns (rs_shared s'))) \<and>
    sh_world (rs_shared s') = sh_world (rs_shared s)"
proof (induction taps arbitrary: s)
  case (Cons tap taps)
  obtain server bs where tap: "tap = (server, bs)" by (cases tap)
  obtain h s1 where one: "perform_single_tap env server bs s = (Some h, s1)" "handle_tap h = (server, bs)"
      "td_local_server h = re_self env" "has_buckets (td_conn_stats h) (td_buckets h) (sh_conns (rs_shared s1))"
      "\<forall>j cs. has_buckets j cs (sh_conns (rs_shared s)) \<longrightarrow> has_buckets j cs (sh_conns (rs_shared s1))"
      "sh_world (rs_shared s1) = sh_world (rs_shared s)"
    using perform_single_tap_ready [OF assms, of server bs s] by blast
  obtain hs s2 where rest: "start_taps env taps s1 = (hs, s2)" "map handle_tap hs = taps"
      "\<forall>h \<in> set hs. td_local_server h = re_self env \<and>
         has_buckets (td_conn_stats h) (td_buckets h) (sh_conns (rs_shared s2))"
      "\<forall>j cs. has_buckets j cs (sh_conns (rs_shared s1)) \<longrightarrow> has_buckets j cs (sh_conns (rs_shared s2))"
      "sh_world (rs_shared s2) = sh_world (rs_shared s1)"
    using Cons.IH [of s1] by blast
  show ?case
    using one rest by (simp add: tap)
qed simp

text \<open>The tap threads of this environment as the threads of \<open>env\<close>, in a good cluster.\<close>

definition runs_taps where
  "runs_taps env shp local_env tap_env hash oob clk peer view tap_peer t pre content \<longleftrightarrow>
     re_threads env = tap_thread_env shp local_env tap_env hash oob clk peer tap_peer t \<and>
     good_cluster shp local_env tap_env hash peer view tap_peer t pre (re_self env) content"

lemma complete_taps_merges:
  assumes "runs_taps env shp local_env tap_env hash oob clk peer view tap_peer t pre content"
  shows "\<forall>h \<in> set hs. td_local_server h = re_self env \<and>
      has_buckets (td_conn_stats h) (td_buckets h) (sh_conns (rs_shared s)) \<Longrightarrow>
    \<forall>h \<in> set hs. smap_get [] taps (td_tap_server h) = td_buckets h \<Longrightarrow>
    small (view (sh_world (rs_shared s))) \<Longrightarrow>
    \<exists>s'. complete_taps env taps hs (owl, un, s) =
        Returns (owl, un - (\<Union>h \<in> set hs. uint ` set (td_buckets h)), s') \<and>
      small (view (sh_world (rs_shared s'))) \<and>
      abs_store (view (sh_world (rs_shared s'))) =
        fold (tap_merge hash content) (map handle_tap hs) (abs_store (view (sh_world (rs_shared s))))"
proof (induction hs arbitrary: un s)
  case (Cons h hs)
  have env: "re_threads env = tap_thread_env shp local_env tap_env hash oob clk peer tap_peer t"
    and good: "good_cluster shp local_env tap_env hash peer view tap_peer t pre (td_local_server h) content"
    using assms Cons.prems(1) by (simp_all add: runs_taps_def)
  obtain sh' where join: "te_join (re_threads env) h (rs_shared s) = Returns (Joined True, sh')"
      "small (view (sh_world sh'))" "abs_store (view (sh_world sh')) =
        tap_merge hash content (handle_tap h) (abs_store (view (sh_world (rs_shared s))))"
      "\<forall>j cs. has_buckets j cs (sh_conns (rs_shared s)) \<longrightarrow> has_buckets j cs (sh_conns sh')"
    using join_merges [OF good, of "rs_shared s" oob clk] Cons.prems(1,3)
    by (auto simp: env handle_tap_def)
  let ?s1 = "log_event (TapOk (td_tap_server h) (td_buckets h)) (s\<lparr>rs_shared := sh'\<rparr>)"
  have "rs_shared ?s1 = sh'" by (simp add: log_event_def)
  then obtain s' where "complete_taps env taps hs (owl, un - uint ` set (td_buckets h), ?s1) =
        Returns (owl, un - uint ` set (td_buckets h) - (\<Union>h \<in> set hs. uint ` set (td_buckets h)), s')"
      "small (view (sh_world (rs_shared s')))" "abs_store (view (sh_world (rs_shared s'))) =
        fold (tap_merge hash content) (map handle_tap hs) (abs_store (view (sh_world sh')))"
    using Cons.IH [of ?s1 "un - uint ` set (td_buckets h)"] Cons.prems join by auto
  then show ?case
    using join(1,3) Cons.prems(2) by (auto simp: complete_single_tap_def Diff_eq Int_assoc)
qed simp

lemma taps_cover:
  assumes "smap_ok owl"
  shows "(\<Union>tap \<in> set (fst (calculate_taps owl)). set (snd tap)) = {b. smap_get [] owl b \<noteq> []}"
proof (intro set_eqI iffI)
  fix b assume "b \<in> (\<Union>tap \<in> set (fst (calculate_taps owl)). set (snd tap))"
  then obtain server where "b \<in> set (first_at server owl)"
    using calculate_taps_spec(2) by (metis UN_E prod.collapse)
  then show "b \<in> {b. smap_get [] owl b \<noteq> []}"
    using assms by (auto simp: in_first_at smap_get_def)
next
  fix b assume "b \<in> {b. smap_get [] owl b \<noteq> []}"
  then obtain server rest where "map_of owl b = Some (server # rest)"
    by (auto simp: smap_get_def neq_Nil_conv split: option.splits)
  then have b: "b \<in> set (first_at server owl)"
    using assms by (simp add: in_first_at)
  then have "(server, first_at server owl) \<in> set (fst (calculate_taps owl))"
    using calculate_taps_spec(2) by (metis empty_iff list.set(1))
  with b show "b \<in> (\<Union>tap \<in> set (fst (calculate_taps owl)). set (snd tap))"
    by (intro UN_I) auto
qed

lemma round_merges:
  assumes runs: "runs_taps env shp local_env tap_env hash oob clk peer view tap_peer t pre content"
    and "small (view (sh_world (rs_shared s)))" "smap_ok owl" "start_taps env (fst (calculate_taps owl)) s = (hs, s1)"
  shows "\<exists>s2. complete_taps env (fst (calculate_taps owl)) hs (owl_tail owl, un, s1) =
      Returns (owl_tail owl, un - uint ` {b. smap_get [] owl b \<noteq> []}, s2) \<and>
    small (view (sh_world (rs_shared s2))) \<and> abs_store (view (sh_world (rs_shared s2))) =
      fold (tap_merge hash content) (fst (calculate_taps owl)) (abs_store (view (sh_world (rs_shared s))))"
proof -
  let ?taps = "fst (calculate_taps owl)"
  have env: "re_threads env = tap_thread_env shp local_env tap_env hash oob clk peer tap_peer t"
    using runs by (simp add: runs_taps_def)
  have start: "map handle_tap hs = ?taps" "sh_world (rs_shared s1) = sh_world (rs_shared s)"
      "\<forall>h \<in> set hs. td_local_server h = re_self env \<and> has_buckets (td_conn_stats h) (td_buckets h) (sh_conns (rs_shared s1))"
    using start_taps_ready [OF env, of ?taps s] assms(4) by auto
  have get: "\<forall>h \<in> set hs. smap_get [] ?taps (td_tap_server h) = td_buckets h"
  proof
    fix h assume "h \<in> set hs"
    then have "(td_tap_server h, td_buckets h) \<in> set ?taps"
      unfolding start(1) [symmetric] by (auto simp: handle_tap_def)
    then show "smap_get [] ?taps (td_tap_server h) = td_buckets h"
      by (simp add: calculate_taps_spec(2,3))
  qed
  have "(\<Union>h \<in> set hs. set (td_buckets h)) = (\<Union>tap \<in> set ?taps. set (snd tap))"
    unfolding start(1) [symmetric] by (simp add: handle_tap_def)
  then have "(\<Union>h \<in> set hs. uint ` set (td_buckets h)) = uint ` {b. smap_get [] owl b \<noteq> []}"
    unfolding taps_cover [OF assms(3), symmetric] by (metis image_UN)
  with complete_taps_merges [OF runs start(3) get, of "owl_tail owl" un] assms(2) start(1,2) show ?thesis by simp
qed

lemma process_rounds_merges:
  assumes runs: "runs_taps env shp local_env tap_env hash oob clk peer view tap_peer t pre content"
  shows "small (view (sh_world (rs_shared s))) \<Longrightarrow> smap_ok owl \<Longrightarrow>
    \<exists>s'. process_rounds env owl un s = Returns (un - uint ` {b. smap_get [] owl b \<noteq> []}, s') \<and>
      small (view (sh_world (rs_shared s'))) \<and> abs_store (view (sh_world (rs_shared s'))) =
        abs_rounds hash content owl (abs_store (view (sh_world (rs_shared s))))"
proof (induction "owl_size owl" arbitrary: owl un s rule: less_induct)
  case less
  show ?case
  proof (cases "owl_empty owl")
    case True
    then have "{b. smap_get [] owl b \<noteq> []} = {}"
      by (auto simp: owl_empty_def list_all_iff smap_get_def split: option.splits dest: map_of_SomeD)
    with True less(2) show ?thesis
      by (simp add: process_rounds.simps [of env owl] abs_rounds.simps [of hash content owl])
  next
    case False
    let ?taps = "fst (calculate_taps owl)" and ?left = "{b. smap_get [] owl b \<noteq> []}"
    have taps: "calculate_taps owl = (?taps, owl_tail owl)"
      using calculate_taps_owl [of owl] by (metis prod.collapse)
    obtain hs s1 where start: "start_taps env ?taps s = (hs, s1)" by (cases "start_taps env ?taps s")
    obtain s2 where compl: "complete_taps env ?taps hs (owl_tail owl, un, s1) = Returns (owl_tail owl, un - uint ` ?left, s2)"
        "small (view (sh_world (rs_shared s2)))" "abs_store (view (sh_world (rs_shared s2))) =
          fold (tap_merge hash content) ?taps (abs_store (view (sh_world (rs_shared s))))"
      using round_merges [OF runs less(2,3) start, of un] by blast
    have tail: "smap_ok (owl_tail owl)" "smap_get [] (owl_tail owl) b = tl (smap_get [] owl b)" for b
      using less(3) smap_ok_left [of "[]" owl] smap_get_left [of "[]" owl b] by (simp_all add: drop_failed_simps)
    obtain s3 where rest: "process_rounds env (owl_tail owl) (un - uint ` ?left) s2 =
          Returns (un - uint ` ?left - uint ` {b. smap_get [] (owl_tail owl) b \<noteq> []}, s3)"
        "small (view (sh_world (rs_shared s3)))" "abs_store (view (sh_world (rs_shared s3))) =
          abs_rounds hash content (owl_tail owl) (abs_store (view (sh_world (rs_shared s2))))"
      using less(1) [OF owl_size_tail [OF False] compl(2) tail(1)] by blast
    have "un - uint ` ?left - uint ` {b. smap_get [] (owl_tail owl) b \<noteq> []} = un - uint ` ?left"
      unfolding tail(2) by auto
    with rest compl(1,3) show ?thesis
      using False
      by (subst process_rounds.simps, subst taps) (simp add: start abs_rounds.simps [of hash content owl])
  qed
qed

section \<open>Every replica's records arrive\<close>

definition at_least :: "(u32 \<Rightarrow> int) \<Rightarrow> bytes \<Rightarrow> u32 \<Rightarrow> (bytes \<rightharpoonup> rec3) \<Rightarrow> bool" where
  "at_least time key f st \<longleftrightarrow> (\<exists>g \<in> flags_at st key. time f \<le> time g)"

definition era_store :: "u32 set \<Rightarrow> bytes \<Rightarrow> (bytes \<rightharpoonup> rec3) \<Rightarrow> bool" where
  "era_store F key st \<longleftrightarrow> flags_at st key \<subseteq> F"

text \<open>The records of a cluster under a key were written in the same era.\<close>

definition era_cluster :: "(u32 \<Rightarrow> int) \<Rightarrow> u32 set \<Rightarrow> (server \<Rightarrow> message list) \<Rightarrow> bool" where
  "era_cluster time F content \<longleftrightarrow> same_era time F \<and> (\<forall>r. mutate_flags ` set (content r) \<subseteq> F)"

lemma tap_merge_newest:
  assumes "era_cluster time F content" "era_store F key st"
  shows "era_store F key (tap_merge hash content tap st)"
    and "at_least time key f st \<Longrightarrow> at_least time key f (tap_merge hash content tap st)"
    and "m \<in> set (content (fst tap)) \<Longrightarrow> m_key (msg_base m) = key \<Longrightarrow> accepted hash (snd tap) key \<Longrightarrow>
      at_least time key (mutate_flags m) (tap_merge hash content tap st)"
proof -
  let ?ms = "bucket_records hash (snd tap) (content (fst tap))"
  have era: "same_era time F" "mutate_flags ` set ?ms \<subseteq> F" "flags_at st key \<subseteq> F"
    using assms by (auto simp: era_cluster_def era_store_def bucket_records_def)
  note newest = fold_merge_newest [OF era, of hash "snd tap"]
  show "era_store F key (tap_merge hash content tap st)"
    using newest by (simp add: era_store_def tap_merge_def)
  show "at_least time key f (tap_merge hash content tap st)" if "at_least time key f st"
    using that newest unfolding at_least_def tap_merge_def by (meson UnCI order_trans)
  show "at_least time key (mutate_flags m) (tap_merge hash content tap st)"
    if "m \<in> set (content (fst tap))" "m_key (msg_base m) = key" "accepted hash (snd tap) key"
  proof -
    have "m \<in> set ?ms" using that by (auto simp: bucket_records_def accepted_def)
    with that newest show ?thesis unfolding at_least_def tap_merge_def by blast
  qed
qed

lemma fold_tap_merge_keeps:
  assumes "era_cluster time F content"
  shows "era_store F key st \<Longrightarrow> era_store F key (fold (tap_merge hash content) taps st)"
    and "era_store F key st \<Longrightarrow> at_least time key f st \<Longrightarrow> at_least time key f (fold (tap_merge hash content) taps st)"
  by (induction taps arbitrary: st) (simp_all add: tap_merge_newest [OF assms])

lemma fold_tap_merge_newest:
  assumes "era_cluster time F content"
  shows "era_store F key st \<Longrightarrow> (r, bs) \<in> set taps \<Longrightarrow> m \<in> set (content r) \<Longrightarrow> m_key (msg_base m) = key \<Longrightarrow>
      accepted hash bs key \<Longrightarrow> at_least time key (mutate_flags m) (fold (tap_merge hash content) taps st)"
proof (induction taps arbitrary: st)
  case (Cons tap taps)
  note keeps = fold_tap_merge_keeps [OF assms] and tap = tap_merge_newest [OF assms Cons.prems(1)]
  show ?case
  proof (cases "(r, bs) = tap")
    case True
    with Cons.prems have "at_least time key (mutate_flags m) (tap_merge hash content tap st)"
      by (intro tap(3)) auto
    with keeps(2) [OF tap(1)] show ?thesis by simp
  next
    case False
    with Cons.prems Cons.IH [OF tap(1)] show ?thesis by simp
  qed
qed simp

lemma owl_empty_get: "owl_empty owl \<Longrightarrow> smap_get [] owl b = []"
  by (auto simp: owl_empty_def list_all_iff smap_get_def split: option.splits dest: map_of_SomeD)

lemma abs_rounds_keeps:
  assumes "era_cluster time F content"
  shows "era_store F key st \<Longrightarrow> at_least time key f st \<Longrightarrow> at_least time key f (abs_rounds hash content owl st)"
  using assms
proof (induction hash content owl st rule: abs_rounds.induct)
  case (1 hash content owl st)
  then show ?case
    using fold_tap_merge_keeps [OF 1(4,2)]
    by (cases "owl_empty owl") (simp_all add: abs_rounds.simps [of hash content owl])
qed

lemma abs_rounds_newest:
  assumes "era_cluster time F content"
  shows "era_store F key st \<Longrightarrow> smap_ok owl \<Longrightarrow> r \<in> set (smap_get [] owl (vbucket_for_key hash key)) \<Longrightarrow>
      m \<in> set (content r) \<Longrightarrow> m_key (msg_base m) = key \<Longrightarrow> \<not> starts_with ASTAIRE_KEY_PREFIX key \<Longrightarrow>
      at_least time key (mutate_flags m) (abs_rounds hash content owl st)"
  using assms
proof (induction hash content owl st rule: abs_rounds.induct)
  case (1 hash content owl st)
  let ?b = "vbucket_for_key hash key" and ?st = "fold (tap_merge hash content) (fst (calculate_taps owl)) st"
  note prems = 1(2-8)
  have ne: "\<not> owl_empty owl" using prems(3) owl_empty_get [of owl ?b] by auto
  have st: "era_store F key ?st" by (rule fold_tap_merge_keeps(1) [OF prems(7,1)])
  have tail: "smap_ok (owl_tail owl)" "smap_get [] (owl_tail owl) ?b = tl (smap_get [] owl ?b)"
    using prems(2) smap_ok_left [of "[]" owl] smap_get_left [of "[]" owl ?b] by (simp_all add: drop_failed_simps)
  obtain r0 rest where r0: "smap_get [] owl ?b = r0 # rest"
    using prems(3) by (cases "smap_get [] owl ?b") auto
  have "at_least time key (mutate_flags m) (abs_rounds hash content (owl_tail owl) ?st)"
  proof (cases "r = r0")
    case True
    have b: "?b \<in> set (first_at r owl)"
      using r0 prems(2) True by (auto simp: in_first_at smap_get_def split: option.splits)
    then have "(r, first_at r owl) \<in> set (fst (calculate_taps owl))"
      using calculate_taps_spec(2) by (metis empty_iff list.set(1))
    moreover have "accepted hash (first_at r owl) key" using b prems(6) by (simp add: accepted_def)
    ultimately show ?thesis
      by (intro abs_rounds_keeps [OF prems(7) st] fold_tap_merge_newest [OF prems(7,1) _ prems(4,5)])
  next
    case False
    then have "r \<in> set (smap_get [] (owl_tail owl) ?b)" using prems(3) r0 tail(2) by simp
    from 1(1) [OF ne st tail(1) this prems(4-7)] show ?thesis .
  qed
  then show ?case
    using ne by (simp add: abs_rounds.simps [of hash content owl])
qed

section \<open>Properties\<close>

lemma set_smap_upd: "set (smap_upd k v m) \<subseteq> insert (k, v) (set m)"
  by (induction m) auto

lemma calculate_worklist_nonempty: "(b, rs) \<in> set (calculate_worklist self v full) \<Longrightarrow> rs \<noteq> []"
proof -
  have "list_all (\<lambda>(b, rs). rs \<noteq> []) owl \<Longrightarrow>
      list_all (\<lambda>(b, rs). rs \<noteq> []) (fold (worklist_step full self cur) new owl)" for cur new owl
  proof (induction new arbitrary: owl)
    case (Cons it new)
    have "list_all (\<lambda>(b, rs). rs \<noteq> []) (worklist_step full self cur it owl)"
      using Cons.prems set_smap_upd by (fastforce simp: worklist_step_eq wants_def list_all_iff)
    with Cons.IH show ?case by simp
  qed simp
  then have "list_all (\<lambda>(b, rs). rs \<noteq> []) (calculate_worklist self v full)"
    by (simp add: calculate_worklist_def Let_def)
  then show "(b, rs) \<in> set (calculate_worklist self v full) \<Longrightarrow> rs \<noteq> []"
    by (auto simp: list_all_iff)
qed

lemma calculate_worklist_keys:
  "{b. smap_get [] (calculate_worklist self v full) b \<noteq> []} = fst ` set (calculate_worklist self v full)"
proof (intro set_eqI iffI)
  fix b assume "b \<in> {b. smap_get [] (calculate_worklist self v full) b \<noteq> []}"
  then have "map_of (calculate_worklist self v full) b \<noteq> None"
    by (cases "map_of (calculate_worklist self v full) b") (simp_all add: smap_get_def)
  then show "b \<in> fst ` set (calculate_worklist self v full)" by (simp add: map_of_eq_None_iff)
next
  fix b assume "b \<in> fst ` set (calculate_worklist self v full)"
  then obtain rs where "(b, rs) \<in> set (calculate_worklist self v full)" by auto
  with calculate_worklist_nonempty [OF this] show "b \<in> {b. smap_get [] (calculate_worklist self v full) b \<noteq> []}"
    by (simp add: smap_get_def smap_map_of_iff [OF calculate_worklist_ok, symmetric])
qed

lemma do_resync_merges:
  assumes runs: "runs_taps env shp local_env tap_env hash oob clk peer view tap_peer t pre content"
    and small: "small (view (sh_world (rs_shared s)))"
  shows "\<exists>s' evs. do_resync env alarm v full s = Returns s' \<and> rs_log s' = rs_log s @ evs \<and> ResyncFailed \<notin> set evs \<and>
    small (view (sh_world (rs_shared s'))) \<and>
    abs_store (view (sh_world (rs_shared s'))) =
      abs_rounds hash content (calculate_worklist (re_self env) v full) (abs_store (view (sh_world (rs_shared s))))"
proof (cases "calculate_worklist (re_self env) v full = []")
  case True
  then show ?thesis using small by (simp add: do_resync_def abs_rounds.simps owl_empty_def)
next
  case False
  let ?owl = "calculate_worklist (re_self env) v full" and ?sh = "rs_shared s"
  define s1 where "s1 = log_alarm alarm AlarmSet (log_event StartResync (s\<lparr>rs_shared := ?sh\<lparr>sh_global :=
    gs_set_total_buckets (re_clk env (sh_ticks ?sh)) (word_of_int (owl_total_buckets ?owl)) (sh_global ?sh),
    sh_ticks := sh_ticks ?sh + 1\<rparr>\<rparr>))"
  have s1: "sh_world (rs_shared s1) = sh_world ?sh"
    "rs_log s1 = rs_log s @ StartResync # (if alarm then [AlarmSet] else [])"
    by (simp_all add: s1_def log_alarm_def log_event_def)
  obtain s2 where rounds: "process_rounds env ?owl (uint ` fst ` set ?owl) s1 = Returns ({}, s2)"
      "small (view (sh_world (rs_shared s2)))" "abs_store (view (sh_world (rs_shared s2))) = abs_rounds hash content ?owl (abs_store (view (sh_world ?sh)))"
    using process_rounds_merges [OF runs _ calculate_worklist_ok, of s1 "re_self env" v full "uint ` fst ` set ?owl"]
      small by (auto simp: s1 calculate_worklist_keys)
  then have work: "process_worklist env ?owl s1 = Returns s2" by (simp add: process_worklist_def)
  obtain evs where evs: "rs_log s2 = rs_log s1 @ evs" "good_trace ?owl evs"
    using process_rounds_trace [OF rounds(1) calculate_worklist_ok] by blast
  let ?evs = "StartResync # (if alarm then [AlarmSet] else []) @ evs @ (if alarm then [AlarmClear] else []) @ [CompleteResync]"
  let ?s' = "reset_stats (re_clk env) (log_event CompleteResync (log_alarm alarm AlarmClear s2))"
  have "do_resync env alarm v full s = Returns ?s'"
    using False work by (simp add: do_resync_def Let_def s1_def)
  moreover have "rs_log ?s' = rs_log s @ ?evs"
    using evs(1) by (simp add: s1(2) log_alarm_def log_event_def reset_stats_def Let_def)
  moreover have "ResyncFailed \<notin> set ?evs"
    using evs(2) by (auto simp: good_trace_def list_all_iff is_tap_event_def)
  moreover have "sh_world (rs_shared ?s') = sh_world (rs_shared s2)"
    by (simp add: log_alarm_def log_event_def reset_stats_def Let_def)
  ultimately show ?thesis using rounds(2,3) by metis
qed

text \<open>
  C4: A resync in a cluster that can be reached leaves the local memcached with the abstract
  merge: round by round, the records of every replica of every vbucket of the work list are
  merged into the local store, and no failure is logged.
\<close>

theorem resync_refines_merge:
  assumes "runs_taps env shp local_env tap_env hash oob clk peer view tap_peer t pre content"
    and "small (view (sh_world (rs_shared s)))"
  shows "\<exists>s' evs. do_resync env alarm v full s = Returns s' \<and> rs_log s' = rs_log s @ evs \<and> ResyncFailed \<notin> set evs \<and>
    abs_store (view (sh_world (rs_shared s'))) =
      abs_rounds hash content (calculate_worklist (re_self env) v full) (abs_store (view (sh_world (rs_shared s))))"
  using do_resync_merges [OF assms, of alarm v full] by blast

definition wit_content :: "server \<Rightarrow> message list" where
  "wit_content r = (if r = ''b'' then [wit_mutation] else [])"

text \<open>A server that streams all its records.\<close>

definition wit_server :: "server \<Rightarrow> unit peer" where
  "wit_server r u bin = (u, True, map Recv (map (mutate_wire (replicate 8 0)) (wit_content r)) @ [Recv []])"

definition wit_merge_env :: "((bytes \<rightharpoonup> item) \<times> u64) resync_env" where
  "wit_merge_env =
     \<lparr>re_split_host_port = wit_shp, re_clk = \<lambda>_. (0, True),
      re_threads = tap_thread_env wit_shp wit_env (\<lambda>_. wit_env) (\<lambda>_. 1) (\<lambda>_. 0) (\<lambda>_. (0, True)) ref_memcached wit_server (),
      re_self = ''a''\<rparr>"

definition wit_merge_state :: "((bytes \<rightharpoonup> item) \<times> u64) resync_state" where
  "wit_merge_state =
     \<lparr>rs_shared = \<lparr>sh_world = (Map.empty, 1), sh_global = ts_global (wit_tap_state ()),
        sh_conns = (ts_per_conn (wit_tap_state ()))\<lparr>pc_connections := []\<rparr>, sh_ticks = 0\<rparr>,
      rs_log = []\<rparr>"

lemma wit_runs_taps:
  "runs_taps wit_merge_env wit_shp wit_env (\<lambda>_. wit_env) (\<lambda>_. 1) (\<lambda>_. 0) (\<lambda>_. (0, True)) ref_memcached fst
     wit_server () (replicate 8 0) wit_content"
proof -
  have "streams (wit_server r) () bs (replicate 8 0) (wit_content r) []" for r bs
    using mutate.enc_nonempty [of "replicate 8 0" wit_mutation]
    unfolding streams_def wit_server_def
    by (intro conjI exI [of _ "()"] exI [of _ "map (mutate_wire (replicate 8 0)) (wit_content r)"])
      (auto simp: wit_content_def wit_mutation_def)
  then show ?thesis
    by (auto simp: runs_taps_def wit_merge_env_def good_cluster_def ref_memcached_contract wit_connects)
qed

theorem resync_refines_merge_witness:
  "\<exists>s'. do_resync wit_merge_env True wit_view False wit_merge_state = Returns s' \<and>
     abs_store (fst (sh_world (rs_shared s'))) =
       abs_rounds (\<lambda>_. 1) wit_content (calculate_worklist ''a'' wit_view False) Map.empty"
proof -
  have "small (fst (sh_world (rs_shared wit_merge_state)))" by (simp add: wit_merge_state_def small_def)
  from resync_refines_merge [OF wit_runs_taps this, of True wit_view False] show ?thesis
    by (auto simp: wit_merge_state_def wit_merge_env_def)
qed

lemma resync_newest:
  assumes "runs_taps env shp local_env tap_env hash oob clk peer view tap_peer t pre content"
    and "small (view (sh_world (rs_shared s)))"
    and "era_cluster time F content" "era_store F key (abs_store (view (sh_world (rs_shared s))))"
    and "\<not> starts_with ASTAIRE_KEY_PREFIX key"
    and "map_of (calculate_worklist (re_self env) v full) (vbucket_for_key hash key) = Some replicas"
    and "r \<in> set replicas" "m \<in> set (content r)" "m_key (msg_base m) = key"
  shows "\<exists>s' g. do_resync env alarm v full s = Returns s' \<and>
    g \<in> flags_at (abs_store (view (sh_world (rs_shared s')))) key \<and> time (mutate_flags m) \<le> time g"
proof -
  let ?owl = "calculate_worklist (re_self env) v full"
  have "r \<in> set (smap_get [] ?owl (vbucket_for_key hash key))"
    using assms(6,7) by (simp add: smap_get_def)
  with abs_rounds_newest [OF assms(3,4) calculate_worklist_ok _ assms(8,9,5)] have
    "at_least time key (mutate_flags m) (abs_rounds hash content ?owl (abs_store (view (sh_world (rs_shared s)))))"
    by blast
  with do_resync_merges [OF assms(1,2), of alarm v full] show ?thesis
    unfolding at_least_def by metis
qed

text \<open>
  C5: After a resync the local memcached holds, under every key of the vbuckets it streamed, a
  record at least as new as that of every replica of the vbucket: no update that any replica
  still has is lost. This needs only that the records of the cluster were written within
  \<open>2 ^ 31\<close> milliseconds of each other.
\<close>

theorem resync_collects_newest:
  assumes "runs_taps env shp local_env tap_env hash oob clk peer view tap_peer t pre content"
    and "small (view (sh_world (rs_shared s)))"
    and "era_cluster time F content" "era_store F key (abs_store (view (sh_world (rs_shared s))))"
    and "\<not> starts_with ASTAIRE_KEY_PREFIX key"
    and "map_of (calculate_worklist (re_self env) v full) (vbucket_for_key hash key) = Some replicas"
    and "r \<in> set replicas" "m \<in> set (content r)" "m_key (msg_base m) = key"
  shows "\<exists>s' g. do_resync env alarm v full s = Returns s' \<and>
    g \<in> flags_at (abs_store (view (sh_world (rs_shared s')))) key \<and> time (mutate_flags m) \<le> time g"
  using resync_newest [OF assms] .

theorem resync_collects_newest_witness:
  "\<exists>s' g. do_resync wit_merge_env True wit_view False wit_merge_state = Returns s' \<and>
     g \<in> flags_at (abs_store (fst (sh_world (rs_shared s')))) [1] \<and> 9 \<le> uint g"
proof -
  have owl: "calculate_worklist (re_self wit_merge_env) wit_view False = [(1, [''b'', ''c''])]"
    by (simp add: calculate_worklist_def wit_view_def worklist_step_def is_in_vector_def
        source_replicas_def smap_get_def wit_merge_env_def)
  have "small (fst (sh_world (rs_shared wit_merge_state)))" by (simp add: wit_merge_state_def small_def)
  moreover have "era_cluster uint {9} wit_content"
    by (auto simp: era_cluster_def same_era_def wit_content_def) (simp add: wit_mutation_def)
  moreover have "era_store {9} [1] (abs_store (fst (sh_world (rs_shared wit_merge_state))))"
    by (simp add: era_store_def flags_at_def wit_merge_state_def)
  moreover have "\<not> starts_with ASTAIRE_KEY_PREFIX [1]"
    by (simp add: starts_with_def ASTAIRE_KEY_PREFIX_def ascii_def)
  moreover have "m_key (msg_base wit_mutation) = [1]" "mutate_flags wit_mutation = 9"
    by (simp_all add: wit_mutation_def)
  ultimately show ?thesis
    using resync_collects_newest [OF wit_runs_taps, of wit_merge_state uint "{9}" "[1]" wit_view False
        "[''b'', ''c'']" "''b''" wit_mutation True]
    by (simp add: owl vbucket_for_key_def wit_content_def)
qed

end
