(* ===== verification/Control.thy ===== *)
theory Control
  imports Resync_Merge
begin

text \<open>
  The \<open>Astaire\<close> object of \<open>astaire.cpp\<close>: its control thread, the handlers of SIGHUP and
  SIGUSR1, the destructor, and the tag that marks the local memcached as up to date.

  The object is a state machine. All its members are protected by one lock, which the control
  thread holds except while it waits, so that each iteration of the control loop is one step,
  and the handlers run only while the lock is free. \<open>MemcachedConfigReader\<close> and
  \<open>MemcachedStoreView::update\<close> of cpp-common are parameters. The local memcached is the
  world of the resync.
\<close>

section \<open>Requests to the local memcached\<close>

text \<open>What the control thread reads of its surroundings; connections are numbered.\<close>

record ('m, 'c) control_env =
  ce_connect :: "nat \<Rightarrow> net_env"
  ce_oob :: "nat \<Rightarrow> u32"
  ce_peer :: "'m peer"
  ce_hash :: "bytes \<Rightarrow> u32"
  ce_update :: "'c \<Rightarrow> view \<Rightarrow> view"
  ce_alarm :: bool
  ce_resync :: "'m resync_env"

datatype phase = Starting | AtHead | Waiting | Exited

record 'm astaire =
  a_terminated :: bool
  a_view_updated :: bool
  a_full_resync_requested :: bool
  a_view :: view
  a_resync :: "'m resync_state"
  a_connects :: nat
  a_phase :: phase

abbreviation a_memcached :: "'m astaire \<Rightarrow> 'm" where
  "a_memcached a \<equiv> sh_world (rs_shared (a_resync a))"

definition set_memcached :: "'m \<Rightarrow> 'm astaire \<Rightarrow> 'm astaire" where
  "set_memcached m a = a\<lparr>a_resync := (a_resync a)\<lparr>rs_shared := (rs_shared (a_resync a))\<lparr>sh_world := m\<rparr>\<rparr>\<rparr>"

definition local_req_rsp :: "('m, 'c) control_env \<Rightarrow> message \<Rightarrow> 'm astaire \<Rightarrow>
    (bool \<times> message option \<times> 'm astaire) outcome" where
  "local_req_rsp E req a =
     (let (rc, local_conn) = connect (re_split_host_port (ce_resync E)) (ce_connect E (a_connects a))
            (new_ClientConnection (re_self (ce_resync E)));
          a = a\<lparr>a_connects := a_connects a + 1\<rparr>
      in if rc \<noteq> 0 then Returns (False, None, a)
         else
           let (_, m, local_conn) = send (ce_peer E) (a_memcached a) local_conn req;
               a = set_memcached m a
           in bind_outcome (recv (ce_oob E) local_conn) (\<lambda>(status, base_msg, _).
                if status \<noteq> St_OK then Returns (False, None, a)
                else case base_msg of
                  None \<Rightarrow> NullDeref
                | Some rsp \<Rightarrow>
                    if \<not> is_response rsp \<or> op_code rsp \<noteq> op_code req then Returns (False, None, a)
                    else Returns (True, Some rsp, a)))"

datatype PollResult = UP_TO_DATE | OUT_OF_DATE | POLL_ERROR

definition poll_local_memcached :: "('m, 'c) control_env \<Rightarrow> 'm astaire \<Rightarrow> (PollResult \<times> 'm astaire) outcome" where
  "poll_local_memcached E a =
     bind_outcome (local_req_rsp E (new_GetReq ASTAIRE_TAG_KEY 0) a) (\<lambda>(ok, rsp, a).
       if \<not> ok then Returns (POLL_ERROR, a)
       else case rsp of
         None \<Rightarrow> NullDeref
       | Some get_rsp \<Rightarrow>
           Returns (if result_code get_rsp = result_u16 NO_ERROR then UP_TO_DATE
                    else if result_code get_rsp = result_u16 KEY_NOT_FOUND then OUT_OF_DATE
                    else POLL_ERROR, a))"

definition tag_local_memcached :: "('m, 'c) control_env \<Rightarrow> 'm astaire \<Rightarrow> (bool \<times> 'm astaire) outcome" where
  "tag_local_memcached E a =
     bind_outcome
       (local_req_rsp E
          (new_SetReq ASTAIRE_TAG_KEY (vbucket_for_key (ce_hash E) ASTAIRE_TAG_KEY) ASTAIRE_TAG_VALUE 0 0) a)
       (\<lambda>(ok, _, a). Returns (ok, a))"

definition untag_local_memcached :: "('m, 'c) control_env \<Rightarrow> 'm astaire \<Rightarrow> (bool \<times> 'm astaire) outcome" where
  "untag_local_memcached E a =
     bind_outcome (local_req_rsp E (new_DeleteReq ASTAIRE_TAG_KEY 0) a) (\<lambda>(ok, _, a). Returns (ok, a))"

section \<open>Handlers\<close>

text \<open>\<open>update_view\<close>, with the configuration that \<open>read_config\<close> yields, if it succeeds.\<close>

definition update_view :: "('m, 'c) control_env \<Rightarrow> 'c option \<Rightarrow> 'm astaire \<Rightarrow> bool \<times> 'm astaire" where
  "update_view E config a =
     (case config of
        None \<Rightarrow> (False, a)
      | Some conf \<Rightarrow> (True, a\<lparr>a_view := ce_update E conf (a_view a), a_view_updated := True\<rparr>))"

text \<open>
  The handlers take the lock, change the members and signal the condition variable. A wait of
  the control thread ends on a signal, after ten seconds, or spuriously.
\<close>

definition reload_config :: "('m, 'c) control_env \<Rightarrow> 'c option \<Rightarrow> 'm astaire \<Rightarrow> 'm astaire" where
  "reload_config E config a = snd (update_view E config a)"

definition trigger_full_resync :: "('m, 'c) control_env \<Rightarrow> 'c option \<Rightarrow> 'm astaire \<Rightarrow> 'm astaire" where
  "trigger_full_resync E config a = (snd (update_view E config a))\<lparr>a_full_resync_requested := True\<rparr>"

definition destroy_Astaire :: "'m astaire \<Rightarrow> 'm astaire" where
  "destroy_Astaire a = a\<lparr>a_terminated := True\<rparr>"

definition new_Astaire :: "view \<Rightarrow> 'm resync_state \<Rightarrow> 'm astaire" where
  "new_Astaire v s =
     \<lparr>a_terminated = False, a_view_updated = False, a_full_resync_requested = False, a_view = v,
      a_resync = s, a_connects = 0, a_phase = Starting\<rparr>"

section \<open>The control thread\<close>

definition resync_and_tag :: "('m, 'c) control_env \<Rightarrow> bool \<Rightarrow> 'm astaire \<Rightarrow> 'm astaire outcome" where
  "resync_and_tag E full_resync a =
     bind_outcome (do_resync (ce_resync E) (ce_alarm E) (a_view a) full_resync (a_resync a)) (\<lambda>s.
     bind_outcome (tag_local_memcached E (a\<lparr>a_resync := s\<rparr>)) (\<lambda>(_, a). Returns a))"

text \<open>
  The body of the loop, from the poll of the local memcached on, and as a whole. The alarm is
  cleared through a pointer that is not checked.
\<close>

definition poll_and_act :: "('m, 'c) control_env \<Rightarrow> bool \<Rightarrow> bool \<Rightarrow> 'm astaire \<Rightarrow> 'm astaire outcome" where
  "poll_and_act E resync full_resync a =
     bind_outcome (poll_local_memcached E a) (\<lambda>(res, a).
       let resync = (resync \<or> res = OUT_OF_DATE);
           full_resync = (full_resync \<or> res = OUT_OF_DATE)
       in if resync then resync_and_tag E full_resync a
          else if ce_alarm E
          then Returns (a\<lparr>a_resync := log_event AlarmClear (a_resync a), a_phase := Waiting\<rparr>)
          else NullDeref)"

definition control_iteration :: "('m, 'c) control_env \<Rightarrow> 'm astaire \<Rightarrow> 'm astaire outcome" where
  "control_iteration E a =
     (let resync = a_view_updated a;
          a = a\<lparr>a_view_updated := False\<rparr>;
          full_resync = a_full_resync_requested a;
          resync = (resync \<or> full_resync)
      in if full_resync
         then bind_outcome (untag_local_memcached E (a\<lparr>a_full_resync_requested := False\<rparr>)) (\<lambda>(_, a).
                poll_and_act E resync full_resync a)
         else poll_and_act E resync full_resync a)"

text \<open>Whether a handler can take the lock.\<close>

definition lock_free :: "'m astaire \<Rightarrow> bool" where
  "lock_free a \<longleftrightarrow> a_phase a \<noteq> AtHead"

text \<open>
  The steps of the process: the control thread takes the lock, runs an iteration, finishes, or
  wakes up; a handler runs; or other clients, or a restart, change the local memcached.
\<close>

inductive astaire_step :: "('m, 'c) control_env \<Rightarrow> 'm astaire \<Rightarrow> 'm astaire \<Rightarrow> bool" for E where
  start: "a_phase a = Starting \<Longrightarrow> astaire_step E a (a\<lparr>a_phase := AtHead\<rparr>)"
| iterate: "a_phase a = AtHead \<Longrightarrow> \<not> a_terminated a \<Longrightarrow> control_iteration E a = Returns a' \<Longrightarrow> astaire_step E a a'"
| finish: "a_phase a = AtHead \<Longrightarrow> a_terminated a \<Longrightarrow> astaire_step E a (a\<lparr>a_phase := Exited\<rparr>)"
| wake: "a_phase a = Waiting \<Longrightarrow> astaire_step E a (a\<lparr>a_phase := AtHead\<rparr>)"
| sighup: "lock_free a \<Longrightarrow> astaire_step E a (reload_config E config a)"
| sigusr1: "lock_free a \<Longrightarrow> astaire_step E a (trigger_full_resync E config a)"
| destroy: "lock_free a \<Longrightarrow> astaire_step E a (destroy_Astaire a)"
| memcached: "astaire_step E a (set_memcached m a)"

inductive_cases astaire_stepE: "astaire_step E a a'"

section \<open>What a request leaves alone\<close>

text \<open>The members that a request to the local memcached does not touch.\<close>

definition same_members :: "'m astaire \<Rightarrow> 'm astaire \<Rightarrow> bool" where
  "same_members a a' \<longleftrightarrow>
     a_terminated a' = a_terminated a \<and> a_view_updated a' = a_view_updated a \<and>
     a_full_resync_requested a' = a_full_resync_requested a \<and> a_view a' = a_view a \<and>
     a_phase a' = a_phase a \<and> rs_log (a_resync a') = rs_log (a_resync a)"

lemma same_members_trans [trans]: "same_members a b \<Longrightarrow> same_members b c \<Longrightarrow> same_members a c"
  by (simp add: same_members_def)

lemma set_memcached_simps [simp]:
  "a_terminated (set_memcached m a) = a_terminated a"
  "a_view_updated (set_memcached m a) = a_view_updated a"
  "a_full_resync_requested (set_memcached m a) = a_full_resync_requested a"
  "a_view (set_memcached m a) = a_view a"
  "a_phase (set_memcached m a) = a_phase a"
  "a_connects (set_memcached m a) = a_connects a"
  "a_memcached (set_memcached m a) = m"
  "rs_log (a_resync (set_memcached m a)) = rs_log (a_resync a)"
  by (simp_all add: set_memcached_def)

lemma local_req_rsp_members:
  "local_req_rsp E req a = Returns (ok, rsp, a') \<Longrightarrow> same_members a a'"
  by (auto simp: local_req_rsp_def Let_def same_members_def bind_outcome_Returns_iff
      split: prod.splits if_splits option.splits)

lemma request_members:
  "poll_local_memcached E a = Returns (res, a') \<Longrightarrow> same_members a a'"
  "tag_local_memcached E a = Returns (ok, a') \<Longrightarrow> same_members a a'"
  "untag_local_memcached E a = Returns (ok, a') \<Longrightarrow> same_members a a'"
  by (auto simp: poll_local_memcached_def tag_local_memcached_def untag_local_memcached_def
      bind_outcome_Returns_iff dest!: local_req_rsp_members split: if_splits option.splits)

text \<open>
  Every iteration decides on the kind of resync (\<open>full\<close>), and runs it or waits.
\<close>

lemma control_iteration_polls:
  fixes a :: "'m astaire"
  assumes "control_iteration E a = Returns a'"
  obtains a1 :: "'m astaire" where "same_members (a\<lparr>a_view_updated := False, a_full_resync_requested := False\<rparr>) a1"
    "poll_and_act E (a_view_updated a \<or> a_full_resync_requested a) (a_full_resync_requested a) a1 = Returns a'"
proof (cases "a_full_resync_requested a")
  case True
  with assms obtain ok a1 where
      "untag_local_memcached E (a\<lparr>a_view_updated := False, a_full_resync_requested := False\<rparr>) = Returns (ok, a1)"
      "poll_and_act E True True a1 = Returns a'"
    by (auto simp: control_iteration_def bind_outcome_Returns_iff)
  with True show thesis by (intro that [of a1]) (auto dest: request_members(3))
next
  case False
  then have "same_members (a\<lparr>a_view_updated := False, a_full_resync_requested := False\<rparr>) (a\<lparr>a_view_updated := False\<rparr>)"
    by (simp add: same_members_def)
  with assms False show thesis by (intro that) (auto simp: control_iteration_def)
qed

lemma control_iteration_cases:
  fixes a :: "'m astaire"
  assumes "control_iteration E a = Returns a'"
  obtains (resync) full and a1 :: "'m astaire" and s2 where
    "a_full_resync_requested a \<longrightarrow> full"
    "rs_log (a_resync a1) = rs_log (a_resync a)"
    "do_resync (ce_resync E) (ce_alarm E) (a_view a) full (a_resync a1) = Returns s2"
    "rs_log (a_resync a') = rs_log s2" "a_phase a' = a_phase a" "a_terminated a' = a_terminated a"
    "\<not> a_full_resync_requested a'" "\<not> a_view_updated a'" "a_view a' = a_view a"
  | (wait) "\<not> a_full_resync_requested a" "\<not> a_view_updated a" "a_phase a' = Waiting"
    "a_full_resync_requested a' = a_full_resync_requested a" "a_view_updated a' = a_view_updated a"
    "a_terminated a' = a_terminated a" "\<exists>a1 res a2. poll_local_memcached E a1 = Returns (res, a2) \<and> res \<noteq> OUT_OF_DATE"
proof -
  let ?a0 = "a\<lparr>a_view_updated := False, a_full_resync_requested := False\<rparr>"
  let ?full = "a_full_resync_requested a"
  obtain a1 where a1: "same_members ?a0 a1" "poll_and_act E (a_view_updated a \<or> ?full) ?full a1 = Returns a'"
    using control_iteration_polls [OF assms] by blast
  then obtain a2 res where steps: "poll_local_memcached E a1 = Returns (res, a2)"
      "(if a_view_updated a \<or> ?full \<or> res = OUT_OF_DATE
        then resync_and_tag E (?full \<or> res = OUT_OF_DATE) a2
        else if ce_alarm E then Returns (a2\<lparr>a_resync := log_event AlarmClear (a_resync a2), a_phase := Waiting\<rparr>)
        else NullDeref) = Returns a'"
    by (auto simp: poll_and_act_def Let_def bind_outcome_Returns_iff)
  have m: "same_members ?a0 a2"
    using a1(1) request_members(1) [OF steps(1)] by (rule same_members_trans)
  show thesis
  proof (cases "a_view_updated a \<or> ?full \<or> res = OUT_OF_DATE")
    case True
    then obtain s2 ok where
      "do_resync (ce_resync E) (ce_alarm E) (a_view a2) (?full \<or> res = OUT_OF_DATE) (a_resync a2) = Returns s2"
      "tag_local_memcached E (a2\<lparr>a_resync := s2\<rparr>) = Returns (ok, a')"
      using steps(2) by (auto simp: resync_and_tag_def bind_outcome_Returns_iff)
    with m request_members(2) [OF this(2)] show thesis
      by (intro resync [of "?full \<or> res = OUT_OF_DATE" a2 s2]) (auto simp: same_members_def)
  next
    case False
    with steps m show thesis
      by (intro wait) (auto simp: same_members_def log_event_def split: if_splits)
  qed
qed

section \<open>Polling and tagging a memcached that keeps its contract\<close>

definition set_rsp :: "u64 \<Rightarrow> u16 \<Rightarrow> message" where
  "set_rsp cas status = BaseRsp (base SET [] 0 cas) status"

definition delete_rsp :: "u16 \<Rightarrow> message" where
  "delete_rsp status = BaseRsp (base DELETE [] 0 0) status"

definition set_contract :: "'m peer \<Rightarrow> ('m \<Rightarrow> bytes \<rightharpoonup> item) \<Rightarrow> bool" where
  "set_contract peer view \<longleftrightarrow>
     (\<forall>m key vb val flags expiry. fits key val \<longrightarrow>
        (\<exists>m' evs status cas. peer m (to_wire (new_SetReq key vb val flags expiry)) = (m', True, evs) \<and>
           delivers evs (set_rsp cas status) \<and> stores (view m) (view m') key val flags expiry))"

definition delete_contract :: "'m peer \<Rightarrow> ('m \<Rightarrow> bytes \<rightharpoonup> item) \<Rightarrow> bool" where
  "delete_contract peer view \<longleftrightarrow>
     (\<forall>m key. length key < 2 ^ 16 \<longrightarrow>
        (\<exists>m' evs status. peer m (to_wire (new_DeleteReq key 0)) = (m', True, evs) \<and>
           delivers evs (delete_rsp status) \<and> view m' = (view m)(key := None)))"

text \<open>Every connection to the local memcached is made.\<close>

definition reachable_memcached :: "('m, 'c) control_env \<Rightarrow> bool" where
  "reachable_memcached E \<longleftrightarrow>
     (\<forall>n. connects (re_split_host_port (ce_resync E)) (ce_connect E n) (re_self (ce_resync E)))"

lemma local_req_rsp_delivered:
  assumes "reachable_memcached E" "ce_peer E (a_memcached a) (to_wire req) = (m', True, evs)"
    "delivers evs rsp" "self_parsing (ce_oob E) rsp" "length (to_wire rsp) < 2 ^ 32"
    "is_response rsp" "op_code rsp = op_code req"
  shows "local_req_rsp E req a = Returns (True, Some rsp, set_memcached m' (a\<lparr>a_connects := a_connects a + 1\<rparr>))"
proof -
  obtain c where c: "connect (re_split_host_port (ce_resync E)) (ce_connect E (a_connects a))
      (new_ClientConnection (re_self (ce_resync E))) = (0, c)" "clean c"
    using connects_connect assms(1) unfolding reachable_memcached_def by blast
  from send_recv_delivered [where peer = "ce_peer E" and req = req, OF c(2) assms(2-5)] c(1) assms(6,7)
  show ?thesis by (simp add: local_req_rsp_def)
qed

lemma length_tag_key: "length ASTAIRE_TAG_KEY = 12"
  by (simp add: ASTAIRE_TAG_KEY_def ASTAIRE_KEY_PREFIX_def ascii_def)

text \<open>A GET for the tag is answered, and changes nothing.\<close>

definition poll_contract :: "'m peer \<Rightarrow> ('m \<Rightarrow> bytes \<rightharpoonup> item) \<Rightarrow> bool" where
  "poll_contract peer view \<longleftrightarrow>
     (\<forall>m key. length key < 2 ^ 16 \<longrightarrow> small (view m) \<longrightarrow>
        (\<exists>evs rsp. peer m (to_wire (new_GetReq key 0)) = (m, True, evs) \<and> delivers evs rsp \<and>
           length (to_wire rsp) < 2 ^ 32 \<and>
           (case view m key of None \<Rightarrow> \<exists>body. rsp = get_miss body | Some it \<Rightarrow> rsp = get_hit it)))"

lemma poll_contract_ref: "poll_contract ref_memcached fst"
  unfolding poll_contract_def using ref_memcached_get by blast

lemma poll_spec:
  assumes "poll_contract (ce_peer E) view" "reachable_memcached E" "small (view (a_memcached a))"
  shows "poll_local_memcached E a =
    Returns (if view (a_memcached a) ASTAIRE_TAG_KEY = None then OUT_OF_DATE else UP_TO_DATE,
      a\<lparr>a_connects := a_connects a + 1\<rparr>)"
proof -
  let ?m = "a_memcached a" and ?req = "new_GetReq ASTAIRE_TAG_KEY 0"
  obtain evs rsp where get: "ce_peer E ?m (to_wire ?req) = (?m, True, evs)"
      "delivers evs rsp" "length (to_wire rsp) < 2 ^ 32"
      "case view ?m ASTAIRE_TAG_KEY of None \<Rightarrow> \<exists>body. rsp = get_miss body | Some it \<Rightarrow> rsp = get_hit it"
    using assms(1) [unfolded poll_contract_def, rule_format, of ASTAIRE_TAG_KEY, OF _ assms(3)]
    by (auto simp: length_tag_key)
  have op: "op_code ?req = op_byte GET" by (simp add: new_GetReq_def op_code_def base_def)
  have same: "set_memcached ?m (a\<lparr>a_connects := n\<rparr>) = a\<lparr>a_connects := n\<rparr>" for n
    by (simp add: set_memcached_def)
  show ?thesis
  proof (cases "view ?m ASTAIRE_TAG_KEY")
    case None
    with get(4) obtain body where body: "rsp = get_miss body" by auto
    let ?p = "parsed_miss (ce_oob E) body"
    have p: "delivers evs ?p" "length (to_wire ?p) < 2 ^ 32" "is_response ?p" "op_code ?p = op_code ?req"
        "result_code ?p = result_u16 KEY_NOT_FOUND"
      using get(2,3) body
      by (simp_all add: delivers_def parsed_miss(2) op)
        (simp_all add: parsed_miss_def new_GetRsp_def base_def op_code_def result_code_def)
    from local_req_rsp_delivered [OF assms(2) get(1) p(1) parsed_miss(1) p(2-4)] None p(5) show ?thesis
      by (simp add: poll_local_memcached_def same)
  next
    case (Some it)
    with get(4) have "rsp = get_hit it" by simp
    then have p: "self_parsing (ce_oob E) rsp" "is_response rsp" "op_code rsp = op_code ?req"
        "result_code rsp = result_u16 NO_ERROR"
      by (simp_all add: self_parsing_responses op)
        (simp_all add: get_hit_def new_GetRsp_def base_def op_code_def result_code_def)
    from local_req_rsp_delivered [OF assms(2) get(1,2) p(1) get(3) p(2,3)] Some p(4) show ?thesis
      by (simp add: poll_local_memcached_def same)
  qed
qed

lemma self_parsing_plain:
  "self_parsing oob (set_rsp cas status)" "self_parsing oob (delete_rsp status)"
  "length (to_wire (set_rsp cas status)) < 2 ^ 32" "length (to_wire (delete_rsp status)) < 2 ^ 32"
  by (simp_all add: self_parsing_def set_rsp_def delete_rsp_def base_def length_to_wire)

lemma tag_spec:
  assumes "set_contract (ce_peer E) view" "reachable_memcached E"
  shows "\<exists>m'. tag_local_memcached E a = Returns (True, set_memcached m' (a\<lparr>a_connects := a_connects a + 1\<rparr>)) \<and>
    stores (view (a_memcached a)) (view m') ASTAIRE_TAG_KEY ASTAIRE_TAG_VALUE 0 0"
proof -
  let ?req = "new_SetReq ASTAIRE_TAG_KEY (vbucket_for_key (ce_hash E) ASTAIRE_TAG_KEY) ASTAIRE_TAG_VALUE 0 0"
  have "fits ASTAIRE_TAG_KEY ASTAIRE_TAG_VALUE"
    by (simp add: fits_def length_tag_key ASTAIRE_TAG_VALUE_def ascii_def)
  then obtain m' evs status cas where set: "ce_peer E (a_memcached a) (to_wire ?req) = (m', True, evs)"
      "delivers evs (set_rsp cas status)" "stores (view (a_memcached a)) (view m') ASTAIRE_TAG_KEY ASTAIRE_TAG_VALUE 0 0"
    using assms(1) unfolding set_contract_def by blast
  have "is_response (set_rsp cas status)" "op_code (set_rsp cas status) = op_code ?req"
    by (simp_all add: set_rsp_def new_SetReq_def op_code_def base_def)
  from local_req_rsp_delivered [OF assms(2) set(1,2) self_parsing_plain(1,3) this] set(3) show ?thesis
    by (auto simp: tag_local_memcached_def)
qed

lemma untag_spec:
  assumes "delete_contract (ce_peer E) view" "reachable_memcached E"
  shows "\<exists>m'. untag_local_memcached E a = Returns (True, set_memcached m' (a\<lparr>a_connects := a_connects a + 1\<rparr>)) \<and>
    view m' = (view (a_memcached a))(ASTAIRE_TAG_KEY := None)"
proof -
  let ?req = "new_DeleteReq ASTAIRE_TAG_KEY 0"
  obtain m' evs status where del: "ce_peer E (a_memcached a) (to_wire ?req) = (m', True, evs)"
      "delivers evs (delete_rsp status)" "view m' = (view (a_memcached a))(ASTAIRE_TAG_KEY := None)"
    using assms(1) [unfolded delete_contract_def, rule_format, of ASTAIRE_TAG_KEY "a_memcached a"]
    by (auto simp: length_tag_key)
  have "is_response (delete_rsp status)" "op_code (delete_rsp status) = op_code ?req"
    by (simp_all add: delete_rsp_def new_DeleteReq_def op_code_def base_def)
  from local_req_rsp_delivered [OF assms(2) del(1,2) self_parsing_plain(2,4) this] del(3) show ?thesis
    by (auto simp: untag_local_memcached_def)
qed
section \<open>Iterations against a memcached that keeps its contract\<close>

definition control_contract :: "('m, 'c) control_env \<Rightarrow> ('m \<Rightarrow> bytes \<rightharpoonup> item) \<Rightarrow> bool" where
  "control_contract E view \<longleftrightarrow>
     poll_contract (ce_peer E) view \<and> set_contract (ce_peer E) view \<and> delete_contract (ce_peer E) view \<and>
     reachable_memcached E \<and> ce_alarm E"

text \<open>Resyncs come to their end and leave a store of records that fit a message.\<close>

definition resyncs_return :: "('m, 'c) control_env \<Rightarrow> ('m \<Rightarrow> bytes \<rightharpoonup> item) \<Rightarrow> bool" where
  "resyncs_return E view \<longleftrightarrow>
     (\<forall>v full s. small (view (sh_world (rs_shared s))) \<longrightarrow>
        (\<exists>s'. do_resync (ce_resync E) (ce_alarm E) v full s = Returns s' \<and> small (view (sh_world (rs_shared s')))))"

lemma runs_taps_returns:
  assumes "runs_taps (ce_resync E) shp local_env tap_env hash oob clk peer view tap_peer t pre content"
  shows "resyncs_return E view"
  unfolding resyncs_return_def
proof (intro allI impI)
  fix v full and s :: "'a resync_state"
  assume "small (view (sh_world (rs_shared s)))"
  from do_resync_merges [OF assms this, of "ce_alarm E" v full]
  show "\<exists>s'. do_resync (ce_resync E) (ce_alarm E) v full s = Returns s' \<and> small (view (sh_world (rs_shared s')))"
    by blast
qed

lemma small_upd_None: "small st \<Longrightarrow> small (st(k := None))"
  by (auto simp: small_def split: if_splits)

lemma resync_and_tag_settles:
  assumes "control_contract E view" "resyncs_return E view" "small (view (a_memcached a))"
  shows "\<exists>a'. resync_and_tag E full a = Returns a' \<and> view (a_memcached a') ASTAIRE_TAG_KEY \<noteq> None \<and>
    small (view (a_memcached a')) \<and> a_full_resync_requested a' = a_full_resync_requested a \<and>
    a_view_updated a' = a_view_updated a"
proof -
  obtain s where s: "do_resync (ce_resync E) (ce_alarm E) (a_view a) full (a_resync a) = Returns s"
      "small (view (sh_world (rs_shared s)))"
    using assms(2,3) unfolding resyncs_return_def by blast
  have "set_contract (ce_peer E) view" "reachable_memcached E"
    using assms(1) by (simp_all add: control_contract_def)
  from tag_spec [OF this, of "a\<lparr>a_resync := s\<rparr>"] obtain m' where tag:
    "tag_local_memcached E (a\<lparr>a_resync := s\<rparr>) =
       Returns (True, set_memcached m' (a\<lparr>a_resync := s, a_connects := a_connects a + 1\<rparr>))"
    "stores (view (sh_world (rs_shared s))) (view m') ASTAIRE_TAG_KEY ASTAIRE_TAG_VALUE 0 0"
    by auto
  have "fits ASTAIRE_TAG_KEY ASTAIRE_TAG_VALUE"
    by (simp add: fits_def length_tag_key ASTAIRE_TAG_VALUE_def ascii_def)
  with small_stores [OF s(2) tag(2)] tag s(1) show ?thesis
    by (auto simp: resync_and_tag_def stores_def)
qed

lemma poll_and_act_settles:
  assumes "control_contract E view" "resyncs_return E view" "small (view (a_memcached a))"
  shows "\<exists>a'. poll_and_act E resync full a = Returns a' \<and> view (a_memcached a') ASTAIRE_TAG_KEY \<noteq> None \<and>
    small (view (a_memcached a')) \<and> a_full_resync_requested a' = a_full_resync_requested a \<and>
    a_view_updated a' = a_view_updated a \<and>
    (\<not> resync \<and> view (a_memcached a) ASTAIRE_TAG_KEY \<noteq> None \<longrightarrow> a_phase a' = Waiting)"
proof -
  let ?a = "a\<lparr>a_connects := a_connects a + 1\<rparr>" and ?st = "view (a_memcached a) ASTAIRE_TAG_KEY"
  have poll: "poll_local_memcached E a = Returns (if ?st = None then OUT_OF_DATE else UP_TO_DATE, ?a)"
    using assms(1,3) by (intro poll_spec) (simp_all add: control_contract_def)
  show ?thesis
  proof (cases "resync \<or> ?st = None")
    case True
    then show ?thesis
      using resync_and_tag_settles [OF assms(1,2), of ?a "full \<or> ?st = None"] assms(3)
      by (auto simp: poll_and_act_def poll)
  next
    case False
    then have "poll_local_memcached E a = Returns (UP_TO_DATE, ?a)" by (simp add: poll)
    with False assms(1,3) show ?thesis
      by (simp add: poll_and_act_def control_contract_def log_event_def)
  qed
qed

section \<open>Properties\<close>

text \<open>
  C12: No request is lost. A request for a full resync, and an updated view, stay pending until
  an iteration of the control thread has carried out a resync with the view then in force,
  a full one in the first case; and no other step withdraws them.
\<close>

theorem requests_not_lost:
  assumes "astaire_step E a a'" "a_full_resync_requested a \<or> a_view_updated a"
  shows "(a_full_resync_requested a \<longrightarrow> a_full_resync_requested a') \<and> (a_view_updated a \<longrightarrow> a_view_updated a') \<or>
    (\<exists>full s1 s2. do_resync (ce_resync E) (ce_alarm E) (a_view a) full s1 = Returns s2 \<and>
       (a_full_resync_requested a \<longrightarrow> full) \<and>
       rs_log s1 = rs_log (a_resync a) \<and> rs_log (a_resync a') = rs_log s2)"
  using assms(1)
proof (cases rule: astaire_step.cases)
  case iterate
  from iterate(3) show ?thesis
  proof (cases rule: control_iteration_cases)
    case (resync full a1 s2)
    then show ?thesis by blast
  qed (use assms(2) in simp)
qed (auto simp: reload_config_def trigger_full_resync_def destroy_Astaire_def update_view_def split: option.splits)

definition wit_control :: "((bytes \<rightharpoonup> item) \<times> u64, view) control_env" where
  "wit_control =
     \<lparr>ce_connect = \<lambda>_. wit_env, ce_oob = \<lambda>_. 0, ce_peer = ref_memcached, ce_hash = \<lambda>_. 1,
      ce_update = \<lambda>c _. c, ce_alarm = True, ce_resync = wit_merge_env\<rparr>"

definition wit_astaire :: "((bytes \<rightharpoonup> item) \<times> u64) astaire" where
  "wit_astaire = (new_Astaire wit_view wit_merge_state)\<lparr>a_phase := Waiting\<rparr>"

lemma ref_memcached_parses_plain:
  "fits key val \<Longrightarrow>
     from_wire oob (to_wire (new_SetReq key vb val flags expiry)) =
       Returns (Some (new_SetReq key vb val flags expiry, []))"
  "length key < 2 ^ 16 \<Longrightarrow>
     from_wire oob (to_wire (new_DeleteReq key 0)) = Returns (Some (new_DeleteReq key 0, []))"
  using from_wire_to_wire [where rest = "[]" and oob = oob]
  by (simp_all add: new_SetReq_def new_DeleteReq_def base_def fits_def length_to_wire sar_extra_def)

lemma wit_control_contract: "control_contract wit_control fst"
proof -
  have "set_contract ref_memcached fst"
    unfolding set_contract_def
    by (auto simp: ref_memcached_def ref_memcached_parses_plain(1) stores_def)
      (auto simp: new_SetReq_def base_def set_rsp_def intro!: delivers_one exI)
  moreover have "delete_contract ref_memcached fst"
    unfolding delete_contract_def
    by (auto simp: ref_memcached_def ref_memcached_parses_plain(2))
      (auto simp: new_DeleteReq_def base_def delete_rsp_def fun_upd_def intro!: delivers_one exI)
  ultimately show ?thesis
    by (simp add: control_contract_def wit_control_def poll_contract_ref reachable_memcached_def wit_connects
        wit_merge_env_def)
qed

lemma wit_astaire_small: "small (fst (a_memcached wit_astaire))"
  by (simp add: wit_astaire_def new_Astaire_def wit_merge_state_def small_def)

theorem requests_not_lost_witness:
  "(let a = trigger_full_resync wit_control None wit_astaire
    in astaire_step wit_control a (a\<lparr>a_phase := AtHead\<rparr>) \<and> a_full_resync_requested (a\<lparr>a_phase := AtHead\<rparr>) \<or>
      (\<exists>full s1 s2. do_resync (ce_resync wit_control) True (a_view a) full s1 = Returns s2 \<and> full))"
proof -
  let ?a = "trigger_full_resync wit_control None wit_astaire"
  have "astaire_step wit_control ?a (?a\<lparr>a_phase := AtHead\<rparr>)"
    by (rule astaire_step.wake) (simp add: trigger_full_resync_def update_view_def wit_astaire_def)
  moreover have "a_full_resync_requested ?a" by (simp add: trigger_full_resync_def)
  ultimately show ?thesis
    using requests_not_lost [of wit_control ?a "?a\<lparr>a_phase := AtHead\<rparr>"]
    by (auto simp: Let_def wit_control_def)
qed

text \<open>
  C23: When the local memcached has lost its tag, because it was restarted, the next iteration
  runs a full resync and then writes the tag; when the tag is there and nothing is requested,
  the iteration changes nothing but clears the alarm and waits.
\<close>

theorem tag_decides:
  assumes "control_contract E view" "small (view (a_memcached a))" "\<not> a_full_resync_requested a"
  shows "control_iteration E a =
    (let a1 = a\<lparr>a_view_updated := False, a_connects := a_connects a + 1\<rparr>
     in if view (a_memcached a) ASTAIRE_TAG_KEY = None then resync_and_tag E True a1
        else if a_view_updated a then resync_and_tag E False a1
        else Returns (a1\<lparr>a_resync := log_event AlarmClear (a_resync a), a_phase := Waiting\<rparr>))"
proof -
  let ?a = "a\<lparr>a_view_updated := False\<rparr>"
  have "poll_local_memcached E ?a =
      Returns (if view (a_memcached ?a) ASTAIRE_TAG_KEY = None then OUT_OF_DATE else UP_TO_DATE,
        ?a\<lparr>a_connects := a_connects ?a + 1\<rparr>)"
    using assms(1,2) by (intro poll_spec) (simp_all add: control_contract_def)
  then show ?thesis
    using assms(1,3) by (simp add: control_iteration_def poll_and_act_def control_contract_def Let_def)
qed

theorem tag_decides_witness:
  "control_iteration wit_control wit_astaire =
     resync_and_tag wit_control True (wit_astaire\<lparr>a_view_updated := False, a_connects := 1\<rparr>)"
proof -
  have "\<not> a_full_resync_requested wit_astaire" "fst (a_memcached wit_astaire) = Map.empty" "a_connects wit_astaire = 0"
    by (simp_all add: wit_astaire_def new_Astaire_def wit_merge_state_def)
  with tag_decides [OF wit_control_contract wit_astaire_small] show ?thesis by simp
qed

text \<open>
  C22: Whatever is requested, and whatever the state of the tag, at most two iterations bring
  the control thread to its wait, with the local memcached tagged as up to date.
\<close>

theorem control_settles:
  assumes "control_contract E view" "small (view (a_memcached a))"
    and "runs_taps (ce_resync E) shp local_env tap_env hash oob clk peer view tap_peer t pre content"
  shows "\<exists>a1 a2. control_iteration E a = Returns a1 \<and> view (a_memcached a1) ASTAIRE_TAG_KEY \<noteq> None \<and>
    control_iteration E a1 = Returns a2 \<and> a_phase a2 = Waiting"
proof -
  note res = runs_taps_returns [OF assms(3)]
  let ?a = "a\<lparr>a_view_updated := False, a_full_resync_requested := False\<rparr>"
  have "\<exists>a0 resync full. control_iteration E a = poll_and_act E resync full a0 \<and> small (view (a_memcached a0)) \<and>
      \<not> a_full_resync_requested a0 \<and> \<not> a_view_updated a0"
  proof (cases "a_full_resync_requested a")
    case True
    obtain m' where "untag_local_memcached E ?a = Returns (True, set_memcached m' (?a\<lparr>a_connects := a_connects ?a + 1\<rparr>))"
        "view m' = (view (a_memcached ?a))(ASTAIRE_TAG_KEY := None)"
      using untag_spec [of E view ?a] assms(1) by (auto simp: control_contract_def)
    with True assms(2) show ?thesis
      by (intro exI [of _ "set_memcached m' (?a\<lparr>a_connects := a_connects ?a + 1\<rparr>)"])
        (auto simp: control_iteration_def small_upd_None)
  next
    case False
    with assms(2) show ?thesis
      by (intro exI [of _ "a\<lparr>a_view_updated := False\<rparr>"]) (auto simp: control_iteration_def)
  qed
  then obtain a0 resync full where a0: "control_iteration E a = poll_and_act E resync full a0"
      "small (view (a_memcached a0))" "\<not> a_full_resync_requested a0" "\<not> a_view_updated a0"
    by blast
  obtain a1 where a1: "control_iteration E a = Returns a1" "view (a_memcached a1) ASTAIRE_TAG_KEY \<noteq> None"
      "small (view (a_memcached a1))" "\<not> a_full_resync_requested a1" "\<not> a_view_updated a1"
    using poll_and_act_settles [OF assms(1) res a0(2), of resync full] a0 by auto
  have "\<exists>a2. poll_and_act E False False (a1\<lparr>a_view_updated := False\<rparr>) = Returns a2 \<and> a_phase a2 = Waiting"
    using poll_and_act_settles [OF assms(1) res, of "a1\<lparr>a_view_updated := False\<rparr>" False False] a1 by auto
  then show ?thesis
    using a1 by (auto simp: control_iteration_def)
qed

theorem control_settles_witness:
  "\<exists>a1 a2. control_iteration wit_control wit_astaire = Returns a1 \<and> fst (a_memcached a1) ASTAIRE_TAG_KEY \<noteq> None \<and>
     control_iteration wit_control a1 = Returns a2 \<and> a_phase a2 = Waiting"
proof -
  have "runs_taps (ce_resync wit_control) wit_shp wit_env (\<lambda>_. wit_env) (\<lambda>_. 1) (\<lambda>_. 0) (\<lambda>_. (0, True)) ref_memcached fst
     wit_server () (replicate 8 0) wit_content"
    using wit_runs_taps by (simp add: wit_control_def)
  from control_settles [OF wit_control_contract wit_astaire_small this] show ?thesis by blast
qed

definition never_tagged :: "('m, 'c) control_env \<Rightarrow> bool" where
  "never_tagged E \<longleftrightarrow> (\<forall>a res a'. poll_local_memcached E a = Returns (res, a') \<longrightarrow> res = OUT_OF_DATE)"

text \<open>
  C39: The control thread gives the lock up only when it waits. With a local memcached that
  never yields the tag back, it resyncs again and again without waiting: the lock is never
  free, so that no signal is handled and the destructor cannot stop the thread.
\<close>

theorem lost_tag_starves_handlers:
  assumes "never_tagged E" "(astaire_step E)\<^sup>*\<^sup>* a a'" "a_phase a = AtHead" "\<not> a_terminated a"
  shows "a_phase a' = AtHead \<and> \<not> a_terminated a' \<and> \<not> lock_free a'"
  using assms(2)
proof (induction rule: rtranclp_induct)
  case base
  then show ?case using assms by (simp add: lock_free_def)
next
  case (step b c)
  from step(2) show ?case
  proof (cases rule: astaire_step.cases)
    case iterate
    from iterate(3) show ?thesis
    proof (cases rule: control_iteration_cases)
      case (resync full a1 s2)
      with step.IH show ?thesis by (simp add: lock_free_def)
    next
      case wait
      with assms(1) show ?thesis by (auto simp: never_tagged_def)
    qed
  qed (use step.IH in \<open>auto simp: lock_free_def\<close>)
qed

text \<open>A memcached that answers every request with a miss; its resync has nothing to do.\<close>

definition wit_lossy :: "(unit, view) control_env" where
  "wit_lossy =
     \<lparr>ce_connect = \<lambda>_. wit_env, ce_oob = \<lambda>_. 0, ce_peer = \<lambda>u bin. (u, True, [Recv (to_wire (get_miss []))]),
      ce_hash = \<lambda>_. 1, ce_update = \<lambda>c _. c, ce_alarm = True, ce_resync = wit_resync_env ''b''\<rparr>"

lemma wit_lossy_poll: "poll_local_memcached wit_lossy a = Returns (OUT_OF_DATE, a\<lparr>a_connects := a_connects a + 1\<rparr>)"
proof -
  have len: "length (to_wire (get_miss [])) < 2 ^ 32"
    by (simp add: length_to_wire get_miss_def new_GetRsp_def base_def)
  then have "poll_contract (ce_peer wit_lossy) (\<lambda>_. Map.empty)"
    unfolding poll_contract_def wit_lossy_def using delivers_one by auto
  moreover have "reachable_memcached wit_lossy"
    by (simp add: reachable_memcached_def wit_lossy_def wit_resync_env_def wit_connects)
  ultimately show ?thesis
    using poll_spec [of wit_lossy "\<lambda>_. Map.empty" a] by (simp add: small_def)
qed

theorem lost_tag_starves_handlers_witness:
  "never_tagged wit_lossy \<and>
   (let a = (new_Astaire wit_view wit_resync_state)\<lparr>a_phase := AtHead\<rparr>
    in a_phase (set_memcached () a) = AtHead \<and> \<not> lock_free (set_memcached () a))"
proof -
  have never: "never_tagged wit_lossy" by (simp add: never_tagged_def wit_lossy_poll)
  let ?a = "(new_Astaire wit_view wit_resync_state)\<lparr>a_phase := AtHead\<rparr>"
  have "(astaire_step wit_lossy)\<^sup>*\<^sup>* ?a (set_memcached () ?a)"
    by (intro r_into_rtranclp astaire_step.memcached)
  from lost_tag_starves_handlers [OF never this] never show ?thesis
    by (simp add: new_Astaire_def)
qed

end
