(* ===== verification/Process.thy ===== *)
theory Process
  imports Mains Control
begin

text \<open>
  The two programs as processes: the problem determination logs they write
  (\<open>astaire_pd_definitions.hpp\<close>, \<open>rogers_pd_definitions.hpp\<close>), and \<open>main\<close> together with its signal
  handlers, as a step relation in which a signal may arrive at any time.
\<close>

section \<open>Problem determination logs\<close>

datatype severity = LOG_ERR | LOG_INFO

record pd_log =
  pl_id :: int
  pl_severity :: severity
  pl_message :: string
  pl_cause :: string
  pl_effect :: string
  pl_action :: string

text \<open>The identities start from numbers that a library gives to each program.\<close>

definition CL_ASTAIRE_INVALID_OPTION :: "int \<Rightarrow> pd_log" where
  "CL_ASTAIRE_INVALID_OPTION CL_ASTAIRE_ID =
     \<lparr>pl_id = CL_ASTAIRE_ID + 1, pl_severity = LOG_ERR,
      pl_message = ''Fatal - An invalid command line option, %s, was passed to Astaire. The application will exit and restart until the problem is fixed. Run with --help for options.'',
      pl_cause = ''There was an invalid command line option in the configuration files.'',
      pl_effect = ''The application will exit and restart until the problem is fixed.'',
      pl_action = ''Check that the configuration files in /etc/clearwater and /etc/clearwater/cluster_settings are correct.''\<rparr>"

definition CL_ASTAIRE_STARTED :: "int \<Rightarrow> pd_log" where
  "CL_ASTAIRE_STARTED CL_ASTAIRE_ID =
     \<lparr>pl_id = CL_ASTAIRE_ID + 2, pl_severity = LOG_INFO,
      pl_message = ''Astaire started.'',
      pl_cause = ''The Astaire application is starting.'',
      pl_effect = ''Normal.'',
      pl_action = ''None.''\<rparr>"

definition CL_ASTAIRE_ENDED :: "int \<Rightarrow> pd_log" where
  "CL_ASTAIRE_ENDED CL_ASTAIRE_ID =
     \<lparr>pl_id = CL_ASTAIRE_ID + 3, pl_severity = LOG_ERR,
      pl_message = ''Astaire ended - Termination signal received - terminating.'',
      pl_cause = ''Astaire has been terminated by Monit or has exited.'',
      pl_effect = ''The Astaire service is not longer available.'',
      pl_action = ''(1). This occurs normally when Astaire is stopped. (2). If Astaire fails to respond to monit queries in a timely manner, monit restarts the application.''\<rparr>"

definition CL_ASTAIRE_TERMINATED :: "int \<Rightarrow> pd_log" where
  "CL_ASTAIRE_TERMINATED CL_ASTAIRE_ID =
     \<lparr>pl_id = CL_ASTAIRE_ID + 4, pl_severity = LOG_ERR,
      pl_message = ''Fatal - Astaire has exited or been terminated with signal %s.'',
      pl_cause = ''Astaire has encountered a fatal software error or has been terminated'',
      pl_effect = ''The application will exit and restart until the problem is fixed.'',
      pl_action = ''Ensure that Astaire has been installed correctly and that it has valid configuration.''\<rparr>"

definition CL_ASTAIRE_RESYNC_FAILED :: "int \<Rightarrow> pd_log" where
  "CL_ASTAIRE_RESYNC_FAILED CL_ASTAIRE_ID =
     \<lparr>pl_id = CL_ASTAIRE_ID + 5, pl_severity = LOG_ERR,
      pl_message = ''Astaire has failed to synchronise some data.'',
      pl_cause = ''Astaire was unable to reach all the previous replicas for some data.'',
      pl_effect = ''Not all data has been resynchronised. Completing a resize operation now may result in loss of data or loss of redundancy'',
      pl_action = ''Check the status of the memcached cluster and ensure network connectivity is possible between all nodes.''\<rparr>"

definition CL_ASTAIRE_START_RESYNC :: "int \<Rightarrow> pd_log" where
  "CL_ASTAIRE_START_RESYNC CL_ASTAIRE_ID =
     \<lparr>pl_id = CL_ASTAIRE_ID + 6, pl_severity = LOG_INFO,
      pl_message = ''Astaire has started a resync operation'',
      pl_cause = ''Astaire is proactively resynchronising data between cluster members.This could be because:(1). Astaire has detected that the cluster is being resized.(2). Astaire has detected the local Memcached process has been restarted.(3). An operator has manually triggered a resync.'',
      pl_effect = ''Data is being resynced across the Memcached cluster.'',
      pl_action = ''Wait until the current resync operation has completed before continuing with any cluster resize.''\<rparr>"

definition CL_ASTAIRE_COMPLETE_RESYNC :: "int \<Rightarrow> pd_log" where
  "CL_ASTAIRE_COMPLETE_RESYNC CL_ASTAIRE_ID =
     \<lparr>pl_id = CL_ASTAIRE_ID + 7, pl_severity = LOG_INFO,
      pl_message = ''Astaire has completed a resync operation'',
      pl_cause = ''Astaire has synchronised all available data to the local node.'',
      pl_effect = ''If the cluster is being resized, this operation can be completed once all other Astaire instances have completed their resync operations.'',
      pl_action = ''If the cluster is being resized, you may continue the resize operation once all other Astaire instances have completed their resync operations.''\<rparr>"

definition CL_ROGERS_INVALID_OPTION :: "int \<Rightarrow> pd_log" where
  "CL_ROGERS_INVALID_OPTION CL_ROGERS_ID =
     \<lparr>pl_id = CL_ROGERS_ID + 1, pl_severity = LOG_ERR,
      pl_message = ''Fatal - An invalid command line option, %s, was passed to Rogers. The application will exit and restart until the problem is fixed. Run with --help for options.'',
      pl_cause = ''There was an invalid command line option in the configuration files.'',
      pl_effect = ''The application will exit and restart until the problem is fixed.'',
      pl_action = ''Check that the configuration files in /etc/clearwater and /etc/clearwater/cluster_settings are correct.''\<rparr>"

definition CL_ROGERS_STARTED :: "int \<Rightarrow> pd_log" where
  "CL_ROGERS_STARTED CL_ROGERS_ID =
     \<lparr>pl_id = CL_ROGERS_ID + 2, pl_severity = LOG_INFO,
      pl_message = ''Rogers started.'',
      pl_cause = ''The Rogers application is starting.'',
      pl_effect = ''Normal.'',
      pl_action = ''None.''\<rparr>"

definition CL_ROGERS_ENDED :: "int \<Rightarrow> pd_log" where
  "CL_ROGERS_ENDED CL_ROGERS_ID =
     \<lparr>pl_id = CL_ROGERS_ID + 3, pl_severity = LOG_ERR,
      pl_message = ''Rogers ended - Termination signal received - terminating.'',
      pl_cause = ''Rogers has been terminated by Monit or has exited.'',
      pl_effect = ''The Rogers service is not longer available.'',
      pl_action = ''(1). This occurs normally when Rogers is stopped. (2). If Rogers fails to respond to monit queries in a timely manner, monit restarts the application.''\<rparr>"

definition CL_ROGERS_TERMINATED :: "int \<Rightarrow> pd_log" where
  "CL_ROGERS_TERMINATED CL_ROGERS_ID =
     \<lparr>pl_id = CL_ROGERS_ID + 4, pl_severity = LOG_ERR,
      pl_message = ''Fatal - Rogers has exited or been terminated with signal %s.'',
      pl_cause = ''Rogers has encountered a fatal software error or has been terminated'',
      pl_effect = ''The application will exit and restart until the problem is fixed.'',
      pl_action = ''Ensure that Rogers has been installed correctly and that it has valid configuration.''\<rparr>"

text \<open>The logs that are written in the course of a resync.\<close>

fun resync_pd_log :: "int \<Rightarrow> event \<Rightarrow> pd_log option" where
  "resync_pd_log id0 StartResync = Some (CL_ASTAIRE_START_RESYNC id0)"
| "resync_pd_log id0 CompleteResync = Some (CL_ASTAIRE_COMPLETE_RESYNC id0)"
| "resync_pd_log id0 ResyncFailed = Some (CL_ASTAIRE_RESYNC_FAILED id0)"
| "resync_pd_log id0 _ = None"

definition resync_syslog :: "int \<Rightarrow> event list \<Rightarrow> pd_log list" where
  "resync_syslog id0 = List.map_filter (resync_pd_log id0)"

lemma resync_syslog_simps [simp]:
  "resync_syslog id0 [] = []"
  "resync_syslog id0 (e # evs) =
     (case resync_pd_log id0 e of None \<Rightarrow> resync_syslog id0 evs | Some l \<Rightarrow> l # resync_syslog id0 evs)"
  "resync_syslog id0 (evs @ evs') = resync_syslog id0 evs @ resync_syslog id0 evs'"
  by (simp_all add: resync_syslog_def map_filter_def split: option.splits)

lemma resync_syslog_taps: "list_all is_tap_event evs \<Longrightarrow> resync_syslog id0 evs = []"
proof (induction evs)
  case (Cons e evs)
  then show ?case by (cases e) (simp_all add: is_tap_event_def)
qed simp

lemma do_resync_syslog:
  assumes "do_resync env alarm v full s = Returns s'" "calculate_worklist (re_self env) v full \<noteq> []"
  shows "\<exists>evs. rs_log s' = rs_log s @ evs \<and>
    resync_syslog id0 evs =
      CL_ASTAIRE_START_RESYNC id0 #
      (if fst ` set (calculate_worklist (re_self env) v full) \<subseteq> streamed evs then [] else [CL_ASTAIRE_RESYNC_FAILED id0]) @
      [CL_ASTAIRE_COMPLETE_RESYNC id0]"
proof -
  let ?owl = "calculate_worklist (re_self env) v full"
  obtain s1 s2 where s: "process_worklist env ?owl s1 = Returns s2"
      "rs_log s1 = rs_log s @ StartResync # (if alarm then [AlarmSet] else [])"
      "rs_log s' = rs_log s2 @ (if alarm then [AlarmClear] else []) @ [CompleteResync]"
    using do_resync_log [OF assms] by blast
  obtain evs where evs: "rs_log s2 = rs_log s1 @ evs @ (if fst ` set ?owl \<subseteq> streamed evs then [] else [ResyncFailed])"
      "good_trace ?owl evs"
    using process_worklist_trace [OF s(1) calculate_worklist_ok] by blast
  let ?all = "StartResync # (if alarm then [AlarmSet] else []) @ evs @
    (if fst ` set ?owl \<subseteq> streamed evs then [] else [ResyncFailed]) @ (if alarm then [AlarmClear] else []) @ [CompleteResync]"
  have "streamed ?all = streamed evs" by (auto simp: streamed_def)
  moreover have "resync_syslog id0 evs = []"
    using evs(2) by (intro resync_syslog_taps) (simp add: good_trace_def)
  ultimately show ?thesis using s(2,3) evs(1) by (intro exI [of _ ?all]) simp
qed

section \<open>main and its signal handlers\<close>

datatype signal = SIGABRT | SIGSEGV | SIGTERM

datatype disposition = SIG_DFL | Signal_handler | Terminate_handler

text \<open>
  What \<open>main\<close> does besides the events of theory \<open>Mains\<close>: setting signal handlers, the semaphore
  it waits for, and its return.
\<close>

datatype action = Set_signal signal disposition | Sem_init | Do main_event | Sem_destroy | Return int

text \<open>
  \<open>Exited\<close>: \<open>main\<close> has returned. \<open>Thread_exited\<close>: another thread has called \<open>exit\<close>. \<open>Undefined\<close>:
  a semaphore is used that is not initialised. \<open>Reentered\<close>: \<open>abort\<close> runs the crash handler again.
\<close>

datatype process_status = Alive | Exited int | Thread_exited int | Killed signal | Undefined | Reentered

datatype log_entry = Event main_event | Log_terminated signal

record process =
  pr_todo :: "action list"
  pr_disposition :: "signal \<Rightarrow> disposition"
  pr_term_sem :: "nat option"
  pr_log :: "log_entry list"
  pr_status :: process_status
  pr_sigterms :: nat
  pr_control_ended :: bool






definition setup_actions :: "action list" where
  "setup_actions =
     [Set_signal SIGABRT Signal_handler, Set_signal SIGSEGV Signal_handler, Sem_init, Set_signal SIGTERM Terminate_handler]"

text \<open>The end of \<open>main\<close>; a return before the wait leaves the handlers and the semaphore as they are.\<close>

definition end_actions :: "main_event list \<times> int \<Rightarrow> action list" where
  "end_actions run =
     (if Wait_for_termination \<in> set (fst run) then [Set_signal SIGTERM SIG_DFL, Sem_destroy] else []) @ [Return (snd run)]"








section \<open>How far main has come\<close>

text \<open>What the actions of \<open>main\<close> so far have set, created and logged.\<close>

fun dispositions :: "action list \<Rightarrow> (signal \<Rightarrow> disposition) \<Rightarrow> (signal \<Rightarrow> disposition)" where
  "dispositions [] d = d"
| "dispositions (Set_signal sig h # as) d = dispositions as (d(sig := h))"
| "dispositions (_ # as) d = dispositions as d"

fun has_sem :: "action list \<Rightarrow> bool \<Rightarrow> bool" where
  "has_sem [] b = b"
| "has_sem (Sem_init # as) b = has_sem as True"
| "has_sem (Sem_destroy # as) b = has_sem as False"
| "has_sem (_ # as) b = has_sem as b"

fun events_of :: "action list \<Rightarrow> log_entry list" where
  "events_of [] = []"
| "events_of (Do e # as) = Event e # events_of as"
| "events_of (_ # as) = events_of as"

lemma dispositions_append [simp]: "dispositions (as @ bs) d = dispositions bs (dispositions as d)"
  by (induction as d rule: dispositions.induct) (simp_all add: fun_upd_def)

lemma has_sem_append [simp]: "has_sem (as @ bs) b = has_sem bs (has_sem as b)"
  by (induction as b rule: has_sem.induct) simp_all

lemma events_of_append [simp]: "events_of (as @ bs) = events_of as @ events_of bs"
  by (induction as rule: events_of.induct) simp_all

lemma actions_events [simp]:
  "dispositions (map Do es) d = d" "has_sem (map Do es) b = b" "events_of (map Do es) = map Event es"
  by (induction es) simp_all

abbreviation started :: "action list \<Rightarrow> signal \<Rightarrow> disposition" where
  "started dn \<equiv> dispositions dn (\<lambda>_. SIG_DFL)"



lemma setup_effect [simp]:
  "dispositions setup_actions d = d(SIGABRT := Signal_handler, SIGSEGV := Signal_handler, SIGTERM := Terminate_handler)"
  "has_sem setup_actions b" "events_of setup_actions = []" "events_of (end_actions run) = []"
  by (simp_all add: setup_actions_def end_actions_def)











section \<open>A process that is told to terminate\<close>










section \<open>What the two programs log\<close>

fun proxy_pd_log :: "int \<Rightarrow> log_entry \<Rightarrow> pd_log option" where
  "proxy_pd_log id0 (Event Log_started) = Some (CL_ROGERS_STARTED id0)"
| "proxy_pd_log id0 (Event Log_ended) = Some (CL_ROGERS_ENDED id0)"
| "proxy_pd_log id0 (Event Log_invalid_option) = Some (CL_ROGERS_INVALID_OPTION id0)"
| "proxy_pd_log id0 (Log_terminated sig) = Some (CL_ROGERS_TERMINATED id0)"
| "proxy_pd_log id0 _ = None"

fun resync_main_pd_log :: "int \<Rightarrow> log_entry \<Rightarrow> pd_log option" where
  "resync_main_pd_log id0 (Event Log_started) = Some (CL_ASTAIRE_STARTED id0)"
| "resync_main_pd_log id0 (Event Log_ended) = Some (CL_ASTAIRE_ENDED id0)"
| "resync_main_pd_log id0 (Event Log_invalid_option) = Some (CL_ASTAIRE_INVALID_OPTION id0)"
| "resync_main_pd_log id0 (Log_terminated sig) = Some (CL_ASTAIRE_TERMINATED id0)"
| "resync_main_pd_log id0 _ = None"

text \<open>
  A program that comes to its wait logs its start and its end; one that ends before that logs its
  start, and then a wrong option, the end after the help text, or nothing more.
\<close>

lemma proxy_syslog:
  "List.map_filter (proxy_pd_log id0) (map Event (fst (proxy_main E args))) =
     CL_ROGERS_STARTED id0 #
     (if Wait_for_termination \<in> set (fst (proxy_main E args)) \<or> proxy_parse args = Exits 0 then [CL_ROGERS_ENDED id0]
      else if \<exists>rc. proxy_parse args = Exits rc then [CL_ROGERS_INVALID_OPTION id0] else [])"
  by (auto simp: proxy_main_def main_body_def lock_pidfile_def proxy_run_def Let_def log_setup_def
      proxy_shutdown_def List.map_filter_simps split: outcome.splits)

lemma resync_main_syslog:
  "List.map_filter (resync_main_pd_log id0) (map Event (fst (resync_main E args))) =
     CL_ASTAIRE_STARTED id0 #
     (if Wait_for_termination \<in> set (fst (resync_main E args)) \<or> resync_parse args = Exits 0 then [CL_ASTAIRE_ENDED id0]
      else if \<exists>rc. resync_parse args = Exits rc then [CL_ASTAIRE_INVALID_OPTION id0] else [])"
  by (auto simp: resync_main_def main_body_def lock_pidfile_def resync_run_def Let_def log_setup_def
      resync_shutdown_def List.map_filter_simps split: outcome.splits)

section \<open>Properties\<close>

text \<open>
  C29: What an operator sees of a resync: the log of its start, the error log that some data
  were not synchronised exactly when a vbucket of the work list was in no successful tap, and
  the log of its end, in this order and nothing else.
\<close>

theorem resync_logs:
  assumes "do_resync env alarm v full s = Returns s'" "calculate_worklist (re_self env) v full \<noteq> []"
  shows "\<exists>evs. rs_log s' = rs_log s @ evs \<and>
    map (\<lambda>l. (pl_id l, pl_severity l)) (resync_syslog id0 evs) =
      (id0 + 6, LOG_INFO) #
      (if fst ` set (calculate_worklist (re_self env) v full) \<subseteq> streamed evs then [] else [(id0 + 5, LOG_ERR)]) @
      [(id0 + 7, LOG_INFO)]"
proof -
  let ?owl = "calculate_worklist (re_self env) v full"
  obtain evs where "rs_log s' = rs_log s @ evs" "resync_syslog id0 evs = CL_ASTAIRE_START_RESYNC id0 #
      (if fst ` set ?owl \<subseteq> streamed evs then [] else [CL_ASTAIRE_RESYNC_FAILED id0]) @ [CL_ASTAIRE_COMPLETE_RESYNC id0]"
    using do_resync_syslog [OF assms, of id0] by blast
  moreover have "pl_id (CL_ASTAIRE_START_RESYNC id0) = id0 + 6" "pl_severity (CL_ASTAIRE_START_RESYNC id0) = LOG_INFO"
      "pl_id (CL_ASTAIRE_RESYNC_FAILED id0) = id0 + 5" "pl_severity (CL_ASTAIRE_RESYNC_FAILED id0) = LOG_ERR"
      "pl_id (CL_ASTAIRE_COMPLETE_RESYNC id0) = id0 + 7" "pl_severity (CL_ASTAIRE_COMPLETE_RESYNC id0) = LOG_INFO"
    by (simp_all only: CL_ASTAIRE_START_RESYNC_def CL_ASTAIRE_RESYNC_FAILED_def CL_ASTAIRE_COMPLETE_RESYNC_def pd_log.simps)
  ultimately show ?thesis by (intro exI [of _ evs]) simp
qed

theorem resync_logs_witness:
  "\<exists>s' evs. do_resync wit_merge_env True wit_view False wit_merge_state = Returns s' \<and>
     rs_log s' = rs_log wit_merge_state @ evs \<and>
     map (\<lambda>l. (pl_id l, pl_severity l)) (resync_syslog 6000 evs) =
       (6006, LOG_INFO) # (if {1} \<subseteq> streamed evs then [] else [(6005, LOG_ERR)]) @ [(6007, LOG_INFO)]"
proof -
  have "small (fst (sh_world (rs_shared wit_merge_state)))" by (simp add: wit_merge_state_def small_def)
  from do_resync_merges [OF wit_runs_taps this, of True wit_view False] obtain s' where
    s': "do_resync wit_merge_env True wit_view False wit_merge_state = Returns s'"
    by blast
  have owl: "calculate_worklist (re_self wit_merge_env) wit_view False = [(1, [''b'', ''c''])]"
    by (simp add: calculate_worklist_def wit_view_def worklist_step_def is_in_vector_def
        source_replicas_def smap_get_def wit_merge_env_def)
  from resync_logs [OF s', of 6000] obtain evs where "rs_log s' = rs_log wit_merge_state @ evs"
      "map (\<lambda>l. (pl_id l, pl_severity l)) (resync_syslog 6000 evs) =
        (6006, LOG_INFO) # (if {1} \<subseteq> streamed evs then [] else [(6005, LOG_ERR)]) @ [(6007, LOG_INFO)]"
    unfolding owl by auto
  with s' show ?thesis by (intro exI [of _ s'] exI [of _ evs] conjI)
qed




end
