(* ===== verification/Tap_Parallel.thy ===== *)
theory Tap_Parallel
  imports Resync_Merge
begin

text \<open>
  The tap threads of a round run in parallel, next to the other clients of the local
  memcached. A step relation interleaves the requests of the threads: a thread looks a record
  up, and writes it in a later step, and anything may happen to the local memcached between
  the two. The theory shows that a process never overwrites a record that is not older, and
  that all interleavings of the threads of a round, and of all rounds of a resync, leave the
  same records as running the threads one after the other.
\<close>

section \<open>Processes\<close>

abbreviation key_of :: "message \<Rightarrow> bytes" where
  "key_of m \<equiv> m_key (msg_base m)"

text \<open>
  A tap thread between two requests to the local memcached: the vbuckets it taps, the records
  of the stream it has still to handle, and what the GET for the first of them has returned.
\<close>

datatype tap_phase = Idle | Looked_up "item option"

record tap_proc =
  tp_buckets :: "vbucket list"
  tp_todo :: "message list"
  tp_phase :: tap_phase

inductive tap_step :: "(bytes \<Rightarrow> u32) \<Rightarrow> (bytes \<rightharpoonup> item) \<Rightarrow> tap_proc \<Rightarrow> (bytes \<rightharpoonup> item) \<Rightarrow> tap_proc \<Rightarrow> bool"
  for hash where
  skip: "tp_phase p = Idle \<Longrightarrow> tp_todo p = m # ms \<Longrightarrow> \<not> accepted hash (tp_buckets p) (key_of m) \<Longrightarrow>
    tap_step hash st p st (p\<lparr>tp_todo := ms\<rparr>)"
| look: "tp_phase p = Idle \<Longrightarrow> tp_todo p = m # ms \<Longrightarrow> accepted hash (tp_buckets p) (key_of m) \<Longrightarrow>
    tap_step hash st p st (p\<lparr>tp_phase := Looked_up (st (key_of m))\<rparr>)"
| keep: "tp_phase p = Looked_up (Some it) \<Longrightarrow> tp_todo p = m # ms \<Longrightarrow> \<not> ts_before (i_flags it) (mutate_flags m) \<Longrightarrow>
    tap_step hash st p st (p\<lparr>tp_todo := ms, tp_phase := Idle\<rparr>)"
| add: "tp_phase p = Looked_up None \<Longrightarrow> tp_todo p = m # ms \<Longrightarrow>
    add_item (key_of m) (mutate_value m) (mutate_flags m) (mutate_expiry m) st st' \<Longrightarrow>
    tap_step hash st p st' (p\<lparr>tp_todo := ms, tp_phase := Idle\<rparr>)"
| replace: "tp_phase p = Looked_up (Some it) \<Longrightarrow> tp_todo p = m # ms \<Longrightarrow> ts_before (i_flags it) (mutate_flags m) \<Longrightarrow>
    replace_item (i_cas it) (key_of m) (mutate_value m) (mutate_flags m) (mutate_expiry m) st st' \<Longrightarrow>
    tap_step hash st p st' (p\<lparr>tp_todo := ms, tp_phase := Idle\<rparr>)"

text \<open>
  The CAS values the processes hold for a key. memcached gives every version of a record a CAS
  value of its own; all that is needed of this is that a write does not bring back a value
  that a process still holds.
\<close>

definition held :: "tap_proc list \<Rightarrow> bytes \<Rightarrow> u64 set" where
  "held ps key = {i_cas it | p m ms it.
     p \<in> set ps \<and> tp_phase p = Looked_up (Some it) \<and> tp_todo p = m # ms \<and> key_of m = key}"

definition fresh_cas :: "tap_proc list \<Rightarrow> rely" where
  "fresh_cas ps st st' \<longleftrightarrow>
     (\<forall>key it. st' key = Some it \<longrightarrow> st' key \<noteq> st key \<longrightarrow> i_cas it \<notin> held ps key)"

type_synonym par_state = "(bytes \<rightharpoonup> item) \<times> tap_proc list"

inductive par_step :: "(bytes \<Rightarrow> u32) \<Rightarrow> rely \<Rightarrow> par_state \<Rightarrow> par_state \<Rightarrow> bool" for hash clients where
  tap: "i < length ps \<Longrightarrow> tap_step hash st (ps ! i) st' p' \<Longrightarrow> fresh_cas (ps[i := p']) st st' \<Longrightarrow>
    par_step hash clients (st, ps) (st', ps[i := p'])"
| client: "clients st st' \<Longrightarrow> fresh_cas ps st st' \<Longrightarrow> par_step hash clients (st, ps) (st', ps)"

inductive_cases par_stepE: "par_step hash clients (st, ps) (st', ps')"
inductive_cases tap_stepE: "tap_step hash st p st' p'"

section \<open>What a process holds\<close>

text \<open>
  What a process has looked up belongs to the first record it has to handle, in a tapped
  vbucket; and as long as the CAS value under that key is the one it has seen, so is the record.
\<close>

definition proc_ok :: "(bytes \<Rightarrow> u32) \<Rightarrow> (bytes \<rightharpoonup> item) \<Rightarrow> tap_proc \<Rightarrow> bool" where
  "proc_ok hash st p \<longleftrightarrow>
     (\<forall>seen. tp_phase p = Looked_up seen \<longrightarrow>
        (\<exists>m ms. tp_todo p = m # ms \<and> accepted hash (tp_buckets p) (key_of m) \<and>
           (\<forall>it it'. seen = Some it \<longrightarrow> st (key_of m) = Some it' \<longrightarrow> i_cas it' = i_cas it \<longrightarrow> it' = it)))"

lemma proc_ok_accepted:
  assumes "proc_ok hash st p" "tp_phase p = Looked_up seen" "tp_todo p = m # ms"
  shows "accepted hash (tp_buckets p) (key_of m)"
  using assms(1) [unfolded proc_ok_def, rule_format, OF assms(2)] assms(3) by auto

lemma proc_ok_fresh:
  assumes "proc_ok hash st p" "fresh_cas ps st st'" "p \<in> set ps"
  shows "proc_ok hash st' p"
  unfolding proc_ok_def
proof (intro allI impI)
  fix seen assume seen: "tp_phase p = Looked_up seen"
  from assms(1) [unfolded proc_ok_def, rule_format, OF this] obtain m ms where m: "tp_todo p = m # ms" "accepted hash (tp_buckets p) (key_of m)"
      and old: "\<forall>it it'. seen = Some it \<longrightarrow> st (key_of m) = Some it' \<longrightarrow> i_cas it' = i_cas it \<longrightarrow> it' = it"
    by blast
  have "it' = it" if "seen = Some it" "st' (key_of m) = Some it'" "i_cas it' = i_cas it" for it it'
  proof (cases "st' (key_of m) = st (key_of m)")
    case True
    with old that show ?thesis by auto
  next
    case False
    have "i_cas it \<in> held ps (key_of m)"
      unfolding held_def using assms(3) seen that(1) m(1) by blast
    with assms(2) False that(2,3) show ?thesis unfolding fresh_cas_def by metis
  qed
  with m show "\<exists>m ms. tp_todo p = m # ms \<and> accepted hash (tp_buckets p) (key_of m) \<and>
      (\<forall>it it'. seen = Some it \<longrightarrow> st' (key_of m) = Some it' \<longrightarrow> i_cas it' = i_cas it \<longrightarrow> it' = it)"
    by blast
qed

lemma tap_step_ok: "tap_step hash st p st' p' \<Longrightarrow> proc_ok hash st' p'"
  by (erule tap_stepE) (auto simp: proc_ok_def)

lemma par_step_ok:
  assumes "par_step hash clients (st, ps) (st', ps')" "\<forall>p \<in> set ps. proc_ok hash st p"
  shows "\<forall>p \<in> set ps'. proc_ok hash st' p"
  using assms(1)
proof (rule par_stepE)
  fix i p' assume i: "ps' = ps[i := p']" "i < length ps" "tap_step hash st (ps ! i) st' p'" "fresh_cas (ps[i := p']) st st'"
  show ?thesis
  proof
    fix p assume "p \<in> set ps'"
    then consider "p = p'" | "p \<in> set ps" "p \<in> set (ps[i := p'])"
      using i(1) set_update_subset_insert [of ps i p'] by auto
    then show "proc_ok hash st' p"
      by cases (use i assms(2) tap_step_ok proc_ok_fresh in blast)+
  qed
qed (use assms(2) proc_ok_fresh in blast)

lemma par_run_ok:
  assumes "(par_step hash clients)\<^sup>*\<^sup>* (st0, ps0) (st, ps)" "\<forall>p \<in> set ps0. tp_phase p = Idle"
  shows "\<forall>p \<in> set ps. proc_ok hash st p"
  using assms(1)
proof (induction rule: rtranclp_induct2)
  case refl
  with assms(2) show ?case by (simp add: proc_ok_def)
qed (use par_step_ok in blast)

section \<open>What a run does\<close>

text \<open>What one step of a process does to the store, and to the process.\<close>

definition item_of :: "message \<Rightarrow> u64 \<Rightarrow> item" where
  "item_of m cas = \<lparr>i_value = mutate_value m, i_flags = mutate_flags m, i_expiry = mutate_expiry m, i_cas = cas\<rparr>"

lemma tap_step_effect:
  assumes "tap_step hash st p st' p'" "proc_ok hash st p" "st' \<noteq> st"
  shows "\<exists>m ms cas. tp_todo p = m # ms \<and> accepted hash (tp_buckets p) (key_of m) \<and>
    st' = st(key_of m \<mapsto> item_of m cas) \<and>
    (\<forall>it. st (key_of m) = Some it \<longrightarrow> ts_before (i_flags it) (mutate_flags m))"
  using assms(1)
proof (rule tap_stepE)
  fix m ms assume "tp_phase p = Looked_up None" "tp_todo p = m # ms"
    "add_item (key_of m) (mutate_value m) (mutate_flags m) (mutate_expiry m) st st'"
  with assms(2,3) show ?thesis
    by (auto simp: proc_ok_def add_item_def stores_def item_of_def split: if_splits)
next
  fix it m ms assume "tp_phase p = Looked_up (Some it)" "tp_todo p = m # ms" "ts_before (i_flags it) (mutate_flags m)"
    "replace_item (i_cas it) (key_of m) (mutate_value m) (mutate_flags m) (mutate_expiry m) st st'"
  with assms(2,3) show ?thesis
    by (auto simp: proc_ok_def replace_item_def stores_def item_of_def split: if_splits option.splits)
qed (use assms(3) in auto)

lemma tap_step_todo:
  assumes "tap_step hash st p st' p'"
  shows "tp_buckets p' = tp_buckets p \<and> (\<exists>ms. tp_todo p = ms @ tp_todo p')"
  using assms by (rule tap_stepE) auto

text \<open>
  The history of a run: every process has handled a first part of its stream, and \<open>Q\<close> holds
  of its number, of this part, of the store and of the process.
\<close>

definition history :: "(nat \<Rightarrow> message list \<Rightarrow> (bytes \<rightharpoonup> item) \<Rightarrow> tap_proc \<Rightarrow> bool) \<Rightarrow> tap_proc list \<Rightarrow>
    (bytes \<rightharpoonup> item) \<Rightarrow> tap_proc list \<Rightarrow> bool" where
  "history Q ps0 st ps \<longleftrightarrow> length ps = length ps0 \<and>
     (\<forall>i < length ps0. tp_buckets (ps ! i) = tp_buckets (ps0 ! i) \<and>
        (\<exists>ms. tp_todo (ps0 ! i) = ms @ tp_todo (ps ! i) \<and> Q i ms st (ps ! i)))"

lemma history_step:
  assumes step: "par_step hash clients (st, ps) (st', ps')" and hist: "history Q ps0 st ps"
    and own: "\<And>i ms ms' p'. i < length ps0 \<Longrightarrow> Q i ms st (ps ! i) \<Longrightarrow> tap_step hash st (ps ! i) st' p' \<Longrightarrow>
      tp_todo (ps ! i) = ms' @ tp_todo p' \<Longrightarrow> Q i (ms @ ms') st' p'"
    and other: "\<And>i j ms p'. i < length ps0 \<Longrightarrow> j < length ps0 \<Longrightarrow> i \<noteq> j \<Longrightarrow> Q i ms st (ps ! i) \<Longrightarrow>
      tap_step hash st (ps ! j) st' p' \<Longrightarrow> Q i ms st' (ps ! i)"
    and client: "\<And>i ms. i < length ps0 \<Longrightarrow> Q i ms st (ps ! i) \<Longrightarrow> clients st st' \<Longrightarrow> Q i ms st' (ps ! i)"
  shows "history Q ps0 st' ps'"
  using step
proof (rule par_stepE)
  fix j p' assume j: "ps' = ps[j := p']" "j < length ps" "tap_step hash st (ps ! j) st' p'"
  show ?thesis
    unfolding history_def
  proof (intro conjI allI impI)
    show "length ps' = length ps0" using hist j(1) by (simp add: history_def)
    fix i assume i: "i < length ps0"
    with hist obtain ms where ms: "tp_todo (ps0 ! i) = ms @ tp_todo (ps ! i)" "Q i ms st (ps ! i)"
        "tp_buckets (ps ! i) = tp_buckets (ps0 ! i)" "length ps = length ps0"
      by (auto simp: history_def)
    obtain ms' where ms': "tp_todo (ps ! j) = ms' @ tp_todo p'" "tp_buckets p' = tp_buckets (ps ! j)"
      using tap_step_todo [OF j(3)] by blast
    show "tp_buckets (ps' ! i) = tp_buckets (ps0 ! i)"
      using ms ms' i j by (cases "i = j") simp_all
    show "\<exists>ms. tp_todo (ps0 ! i) = ms @ tp_todo (ps' ! i) \<and> Q i ms st' (ps' ! i)"
    proof (cases "i = j")
      case True
      with ms ms' j own [OF i ms(2)] show ?thesis by (intro exI [of _ "ms @ ms'"]) simp
    next
      case False
      with ms j other [OF i _ False ms(2)] show ?thesis by (intro exI [of _ ms]) simp
    qed
  qed
qed (use hist client in \<open>fastforce simp: history_def\<close>)

lemma history_start:
  assumes "\<And>i. i < length ps \<Longrightarrow> Q i [] st (ps ! i)"
  shows "history Q ps st ps"
  using assms by (simp add: history_def)

section \<open>Taps of different vbuckets\<close>

definition disjoint_taps :: "tap_proc list \<Rightarrow> bool" where
  "disjoint_taps ps \<longleftrightarrow>
     (\<forall>i < length ps. \<forall>j < length ps. i \<noteq> j \<longrightarrow> set (tp_buckets (ps ! i)) \<inter> set (tp_buckets (ps ! j)) = {})"

definition owns :: "(bytes \<Rightarrow> u32) \<Rightarrow> tap_proc \<Rightarrow> bytes \<Rightarrow> bool" where
  "owns hash p key \<longleftrightarrow> vbucket_for_key hash key \<in> set (tp_buckets p)"

lemma accepted_owns: "accepted hash (tp_buckets p) key \<Longrightarrow> owns hash p key"
  by (simp add: accepted_def owns_def)

lemma disjoint_owns:
  "disjoint_taps ps \<Longrightarrow> i < length ps \<Longrightarrow> j < length ps \<Longrightarrow> owns hash (ps ! i) key \<Longrightarrow> owns hash (ps ! j) key \<Longrightarrow> i = j"
  unfolding disjoint_taps_def owns_def by blast

text \<open>A process leaves the keys of other vbuckets alone.\<close>

lemma tap_step_frame:
  assumes "tap_step hash st p st' p'" "proc_ok hash st p" "\<not> owns hash p key"
  shows "st' key = st key"
proof (cases "st' = st")
  case False
  then obtain m ms cas where "accepted hash (tp_buckets p) (key_of m)" "st' = st(key_of m \<mapsto> item_of m cas)"
    using tap_step_effect [OF assms(1,2)] by blast
  with assms(3) accepted_owns show ?thesis by (metis fun_upd_other)
qed simp

text \<open>A run keeps the length of the list of processes, and their vbuckets.\<close>

lemma history_buckets:
  assumes "history Q ps0 st ps"
  shows "length ps = length ps0" "i < length ps0 \<Longrightarrow> owns hash (ps ! i) key = owns hash (ps0 ! i) key"
    "disjoint_taps ps = disjoint_taps ps0"
  using assms by (auto simp: history_def owns_def disjoint_taps_def)

lemma par_run_history:
  assumes "(par_step hash clients)\<^sup>*\<^sup>* (st0, ps0) (st, ps)"
  shows "history (\<lambda>_ _ _ _. True) ps0 st ps"
  using assms
proof (induction rule: rtranclp_induct2)
  case refl
  then show ?case by (rule history_start) simp
next
  case (step st1 ps1 st2 ps2)
  then show ?case by (blast intro: history_step)
qed

section \<open>All interleavings merge the same records\<close>

definition no_clients :: rely where
  "no_clients st st' \<longleftrightarrow> False"

lemma merge_mutation_at:
  "merge_mutation hash bs m st key =
     (if key_of m = key \<and> accepted hash bs key
      then Some (merge_newest (st key) (mutate_value m, mutate_flags m, mutate_expiry m)) else st key)"
  by (auto simp: merge_mutation_def merge_one_def)

lemma fold_merge_at:
  "st key = st' key \<Longrightarrow> fold (merge_mutation hash bs) ms st key = fold (merge_mutation hash bs) ms st' key"
proof (induction ms arbitrary: st st')
  case (Cons m ms)
  have "merge_mutation hash bs m st key = merge_mutation hash bs m st' key"
    using Cons.prems by (simp add: merge_mutation_at)
  from Cons.IH [where st = "merge_mutation hash bs m st" and st' = "merge_mutation hash bs m st'", OF this]
  show ?case by simp
qed simp

lemma fold_merge_frame:
  "vbucket_for_key hash key \<notin> set bs \<Longrightarrow> fold (merge_mutation hash bs) ms st key = st key"
  by (induction ms arbitrary: st) (simp_all add: merge_mutation_at accepted_def)

definition merged :: "(bytes \<Rightarrow> u32) \<Rightarrow> (bytes \<rightharpoonup> item) \<Rightarrow> tap_proc list \<Rightarrow> nat \<Rightarrow> message list \<Rightarrow>
    (bytes \<rightharpoonup> item) \<Rightarrow> tap_proc \<Rightarrow> bool" where
  "merged hash st0 ps0 i ms st p \<longleftrightarrow>
     (\<forall>key. owns hash (ps0 ! i) key \<longrightarrow>
        abs_store st key = fold (merge_mutation hash (tp_buckets (ps0 ! i))) ms (abs_store st0) key) \<and>
     (\<forall>seen m ms'. tp_phase p = Looked_up seen \<longrightarrow> tp_todo p = m # ms' \<longrightarrow> st (key_of m) = seen)"

text \<open>The record a process handles is merged, when what it has seen is still there.\<close>

lemma tap_step_merges:
  assumes "tap_step hash st p st' p'" "proc_ok hash st p"
    and "\<And>seen m ms. tp_phase p = Looked_up seen \<Longrightarrow> tp_todo p = m # ms \<Longrightarrow> st (key_of m) = seen"
    and "tp_todo p = ms @ tp_todo p'"
  shows "abs_store st' = fold (merge_mutation hash (tp_buckets p)) ms (abs_store st)"
proof -
  have one: "record_run (=) hash (tp_buckets p) m st st' \<Longrightarrow> ms = [m] \<Longrightarrow> ?thesis" for m
    by (drule record_run_merges) (simp only: fold.simps id_apply comp_apply)
  note acc = proc_ok_accepted [OF assms(2)]
  have seen: "record_run (=) hash (tp_buckets p) m st st'"
    if "tp_phase p = Looked_up seen" "tp_todo p = m # ms'"
      "write_after (=) (key_of m) (mutate_value m) (mutate_flags m) (mutate_expiry m) seen st st'" for seen m ms'
    unfolding record_run_def Let_def assms(3) [OF that(1,2)] using acc [OF that(1,2)] assms(3) [OF that(1,2)] that(3) by auto
  show ?thesis
    using assms(1)
  proof (rule tap_stepE)
    fix m ms' assume "st' = st" "p' = p\<lparr>tp_todo := ms'\<rparr>" "tp_todo p = m # ms'" "\<not> accepted hash (tp_buckets p) (key_of m)"
    with assms(4) show ?thesis by (intro one [of m]) (simp_all add: record_run_def)
  next
    fix it m ms' assume p: "p' = p\<lparr>tp_todo := ms', tp_phase := Idle\<rparr>" "tp_phase p = Looked_up (Some it)"
        "tp_todo p = m # ms'"
      and "st' = st" "\<not> ts_before (i_flags it) (mutate_flags m)"
    then show ?thesis using assms(4) by (intro one [OF seen [OF p(2,3)]]) (simp_all add: write_after_def)
  next
    fix m ms' assume p: "p' = p\<lparr>tp_todo := ms', tp_phase := Idle\<rparr>" "tp_phase p = Looked_up None" "tp_todo p = m # ms'"
      and "add_item (key_of m) (mutate_value m) (mutate_flags m) (mutate_expiry m) st st'"
    then show ?thesis using assms(4) by (intro one [OF seen [OF p(2,3)]]) (simp_all add: write_after_def)
  next
    fix it m ms' assume p: "p' = p\<lparr>tp_todo := ms', tp_phase := Idle\<rparr>" "tp_phase p = Looked_up (Some it)"
        "tp_todo p = m # ms'"
      and "ts_before (i_flags it) (mutate_flags m)"
        "replace_item (i_cas it) (key_of m) (mutate_value m) (mutate_flags m) (mutate_expiry m) st st'"
    then show ?thesis using assms(4) by (intro one [OF seen [OF p(2,3)]]) (simp_all add: write_after_def)
  next
    fix m ms' assume "st' = st" "p' = p\<lparr>tp_phase := Looked_up (st (key_of m))\<rparr>"
    then have "ms = []" using assms(4) by (metis self_append_conv2 tap_proc.ext_inject tap_proc.surjective tap_proc.update_convs(3))
    with \<open>st' = st\<close> show ?thesis by simp
  qed
qed

lemma merged_step:
  assumes step: "par_step hash no_clients (st, ps) (st', ps')" and hist: "history (merged hash st0 ps0) ps0 st ps"
    and ok: "\<forall>p \<in> set ps. proc_ok hash st p" and disjoint: "disjoint_taps ps0"
  shows "history (merged hash st0 ps0) ps0 st' ps'"
proof (rule history_step [OF step hist])
  note buckets = history_buckets [OF hist]
  have ok_nth: "i < length ps0 \<Longrightarrow> proc_ok hash st (ps ! i)" for i using ok buckets(1) by simp
  fix i ms assume i: "i < length ps0" and Q: "merged hash st0 ps0 i ms st (ps ! i)"
  have bs: "tp_buckets (ps ! i) = tp_buckets (ps0 ! i)" using hist i by (simp add: history_def)
  {
    fix ms' p' assume t: "tap_step hash st (ps ! i) st' p'" "tp_todo (ps ! i) = ms' @ tp_todo p'"
    have "abs_store st' = fold (merge_mutation hash (tp_buckets (ps0 ! i))) ms' (abs_store st)"
      using tap_step_merges [OF t(1) ok_nth [OF i] _ t(2)] Q unfolding merged_def bs by blast
    then have "abs_store st' key = fold (merge_mutation hash (tp_buckets (ps0 ! i))) (ms @ ms') (abs_store st0) key"
      if "owns hash (ps0 ! i) key" for key
      using Q that fold_merge_at [of "abs_store st" key] unfolding merged_def by simp
    moreover have "st' (key_of m) = seen" if "tp_phase p' = Looked_up seen" "tp_todo p' = m # ms''" for seen m ms''
      using t(1) by (rule tap_stepE) (use that in auto)
    ultimately show "merged hash st0 ps0 i (ms @ ms') st' p'" unfolding merged_def by blast
  next
    fix j p' assume j: "j < length ps0" "i \<noteq> j" "tap_step hash st (ps ! j) st' p'"
    have frame: "st' key = st key" if "owns hash (ps0 ! i) key" for key
      using tap_step_frame [OF j(3) ok_nth [OF j(1)]] disjoint_owns [OF disjoint i j(1) that] j(2) buckets(2) [OF j(1)]
      by blast
    then have "abs_store st' key = abs_store st key" if "owns hash (ps0 ! i) key" for key
      using that by (simp add: abs_store_def)
    moreover have "st' (key_of m) = st (key_of m)" if "tp_phase (ps ! i) = Looked_up seen" "tp_todo (ps ! i) = m # ms'" for seen m ms'
      using frame accepted_owns [OF proc_ok_accepted [OF ok_nth [OF i] that]] buckets(2) [OF i] by blast
    ultimately show "merged hash st0 ps0 i ms st' (ps ! i)" using Q unfolding merged_def by metis
  next
    assume "no_clients st st'"
    then show "merged hash st0 ps0 i ms st' (ps ! i)" by (simp add: no_clients_def)
  }
qed

text \<open>The records that belong to no process stay as they are.\<close>

lemma par_run_frame:
  assumes "(par_step hash no_clients)\<^sup>*\<^sup>* (st0, ps0) (st, ps)" "\<forall>p \<in> set ps0. tp_phase p = Idle"
    and "\<forall>p \<in> set ps0. \<not> owns hash p key"
  shows "st key = st0 key"
  using assms(1)
proof (induction rule: rtranclp_induct2)
  case (step st1 ps1 st2 ps2)
  note hist = par_run_history [OF step(1)]
  have others: "\<not> owns hash (ps1 ! i) key" if "i < length ps1" for i
    using history_buckets(1,2) [OF hist] assms(3) that by auto
  from step(2) have "st2 key = st1 key"
  proof (rule par_stepE)
    fix i p' assume "i < length ps1" "tap_step hash st1 (ps1 ! i) st2 p'"
    with tap_step_frame [OF this(2)] par_run_ok [OF step(1) assms(2)] others show ?thesis by simp
  qed (simp add: no_clients_def)
  with step.IH show ?case by simp
qed simp

lemma par_run_merged:
  assumes "(par_step hash no_clients)\<^sup>*\<^sup>* (st0, ps0) (st, ps)" "\<forall>p \<in> set ps0. tp_phase p = Idle"
    and "disjoint_taps ps0"
  shows "history (merged hash st0 ps0) ps0 st ps"
  using assms(1)
proof (induction rule: rtranclp_induct2)
  case refl
  from assms(2) show ?case by (intro history_start) (simp add: merged_def)
qed (use merged_step [OF _ _ _ assms(3)] par_run_ok [OF _ assms(2)] in blast)

text \<open>The processes one after the other.\<close>

definition run_procs :: "(bytes \<Rightarrow> u32) \<Rightarrow> tap_proc list \<Rightarrow> (bytes \<rightharpoonup> rec3) \<Rightarrow> (bytes \<rightharpoonup> rec3)" where
  "run_procs hash = fold (\<lambda>p. fold (merge_mutation hash (tp_buckets p)) (tp_todo p))"

lemma run_procs_frame:
  "\<forall>p \<in> set ps. \<not> owns hash p key \<Longrightarrow> run_procs hash ps st key = st key"
  unfolding run_procs_def by (induction ps arbitrary: st) (simp_all add: owns_def fold_merge_frame)

lemma run_procs_owner:
  assumes "disjoint_taps ps" "i < length ps" "owns hash (ps ! i) key"
  shows "run_procs hash ps st key = fold (merge_mutation hash (tp_buckets (ps ! i))) (tp_todo (ps ! i)) st key"
proof -
  have rest: "\<not> owns hash p key" if "p \<in> set (take i ps) \<union> set (drop (Suc i) ps)" for p
  proof -
    have "\<exists>j. j < length ps \<and> j \<noteq> i \<and> p = ps ! j"
    proof (cases "p \<in> set (take i ps)")
      case True
      then obtain k where "k < i" "p = ps ! k" by (auto simp: in_set_conv_nth)
      with assms(2) show ?thesis by (intro exI [of _ k]) simp
    next
      case False
      with that obtain k where "k < length ps - Suc i" "p = ps ! (Suc i + k)"
        by (auto simp: in_set_conv_nth)
      then show ?thesis by (intro exI [of _ "Suc i + k"]) simp
    qed
    then obtain j where "j < length ps" "j \<noteq> i" "p = ps ! j" by blast
    with disjoint_owns [OF assms(1,2) _ assms(3)] show ?thesis by blast
  qed
  have "run_procs hash ps st = run_procs hash (take i ps @ ps ! i # drop (Suc i) ps) st"
    using id_take_nth_drop [OF assms(2)] by simp
  also have "\<dots> = run_procs hash (drop (Suc i) ps)
      (fold (merge_mutation hash (tp_buckets (ps ! i))) (tp_todo (ps ! i)) (run_procs hash (take i ps) st))"
    by (simp add: run_procs_def)
  finally show ?thesis
    using rest run_procs_frame [of "drop (Suc i) ps"] run_procs_frame [of "take i ps" hash key st]
      fold_merge_at [of "run_procs hash (take i ps) st" key st]
    by auto
qed

lemma interleaving_merges:
  assumes run: "(par_step hash no_clients)\<^sup>*\<^sup>* (st0, ps0) (st, ps)" and idle: "\<forall>p \<in> set ps0. tp_phase p = Idle"
    and "disjoint_taps ps0" "\<forall>p \<in> set ps. tp_todo p = []"
  shows "abs_store st = run_procs hash ps0 (abs_store st0)"
proof
  fix key
  show "abs_store st key = run_procs hash ps0 (abs_store st0) key"
  proof (cases "\<exists>i < length ps0. owns hash (ps0 ! i) key")
    case True
    then obtain i where i: "i < length ps0" "owns hash (ps0 ! i) key" by blast
    have "tp_todo (ps ! i) = []"
      using assms(4) i(1) history_buckets(1) [OF par_run_history [OF run]] by simp
    with par_run_merged [OF run idle assms(3)] i have
      "abs_store st key = fold (merge_mutation hash (tp_buckets (ps0 ! i))) (tp_todo (ps0 ! i)) (abs_store st0) key"
      by (auto simp: history_def merged_def)
    with run_procs_owner [OF assms(3) i] show ?thesis by simp
  next
    case False
    then have others: "\<forall>p \<in> set ps0. \<not> owns hash p key" by (auto simp: in_set_conv_nth)
    with par_run_frame [OF run idle] run_procs_frame show ?thesis by (simp add: abs_store_def)
  qed
qed

section \<open>Every interleaving comes to its end\<close>

text \<open>A record is handled in one step or in two.\<close>

definition proc_work :: "tap_proc \<Rightarrow> nat" where
  "proc_work p = 2 * length (tp_todo p) - (if tp_phase p = Idle then 0 else 1)"

definition par_work :: "tap_proc list \<Rightarrow> nat" where
  "par_work ps = sum_list (map proc_work ps)"

lemma tap_step_work: "tap_step hash st p st' p' \<Longrightarrow> proc_work p' < proc_work p"
  by (erule tap_stepE) (auto simp: proc_work_def)

lemma par_step_work:
  assumes "par_step hash no_clients (st, ps) (st', ps')"
  shows "par_work ps' < par_work ps"
  using assms
proof (rule par_stepE)
  fix i p' assume i: "ps' = ps[i := p']" "i < length ps" "tap_step hash st (ps ! i) st' p'"
  have "par_work ps' + proc_work (ps ! i) = par_work ps + proc_work p'"
    using i(1,2) elem_le_sum_list [of i "map proc_work ps"]
    by (simp add: par_work_def map_update sum_list_update)
  with tap_step_work [OF i(3)] show ?thesis by simp
qed (simp add: no_clients_def)

lemma par_steps_bounded:
  "(par_step hash no_clients ^^ n) (st, ps) (st', ps') \<Longrightarrow> n + par_work ps' \<le> par_work ps"
proof (induction n arbitrary: st' ps')
  case (Suc n)
  then obtain st1 ps1 where "(par_step hash no_clients ^^ n) (st, ps) (st1, ps1)"
      "par_step hash no_clients (st1, ps1) (st', ps')"
    by auto
  with Suc.IH [OF this(1)] par_step_work [OF this(2)] show ?case by simp
qed simp

lemma held_other:
  assumes "\<forall>p \<in> set ps. proc_ok hash st p" "disjoint_taps ps" "i < length ps" "owns hash (ps ! i) key"
    and "tp_phase p' = Idle"
  shows "held (ps[i := p']) key = {}"
proof -
  have False if held: "p \<in> set (ps[i := p'])" "tp_phase p = Looked_up seen" "tp_todo p = m # ms" "key_of m = key" for p seen m ms
  proof -
    obtain j where j: "j < length ps" "p = ps[i := p'] ! j"
      using held(1) by (auto simp: in_set_conv_nth)
    with held(2) assms(5) have "j \<noteq> i" "p = ps ! j" by (cases "j = i"; simp)+
    moreover have "proc_ok hash st (ps ! j)" using assms(1) j(1) by simp
    ultimately have "owns hash (ps ! j) key"
      using accepted_owns [OF proc_ok_accepted [of hash st p, OF _ held(2,3)]] held(4) by simp
    with disjoint_owns [OF assms(2,3) j(1) assms(4)] \<open>j \<noteq> i\<close> show False by simp
  qed
  then show ?thesis by (auto simp: held_def)
qed

lemma tap_step_exists:
  assumes "proc_ok hash st p" "tp_todo p \<noteq> []"
  shows "\<exists>st' p'. tap_step hash st p st' p' \<and> (st' = st \<or> tp_phase p' = Idle)"
proof (cases "tp_phase p")
  case Idle
  with assms(2) show ?thesis
    by (cases "tp_todo p"; cases "accepted hash (tp_buckets p) (key_of (hd (tp_todo p)))")
      (fastforce intro: tap_step.skip tap_step.look)+
next
  case (Looked_up seen)
  obtain m ms where todo: "tp_todo p = m # ms" using assms(2) by (cases "tp_todo p") auto
  have writes: "\<exists>st'. add_item (key_of m) (mutate_value m) (mutate_flags m) (mutate_expiry m) st st'"
      "\<exists>st'. replace_item cas (key_of m) (mutate_value m) (mutate_flags m) (mutate_expiry m) st st'" for cas
    unfolding add_item_def replace_item_def stores_def by (cases "st (key_of m)"; auto)+
  show ?thesis
  proof (cases seen)
    case None
    with Looked_up todo writes(1) tap_step.add [of p m ms st _ hash] show ?thesis by fastforce
  next
    case (Some it)
    with Looked_up todo writes(2) tap_step.keep [of p it m ms hash st] tap_step.replace [of p it m ms st _ hash]
    show ?thesis by (cases "ts_before (i_flags it) (mutate_flags m)") fastforce+
  qed
qed

lemma par_not_stuck:
  assumes ok: "\<forall>p \<in> set ps. proc_ok hash st p" and "disjoint_taps ps" "p \<in> set ps" "tp_todo p \<noteq> []"
  shows "\<exists>s'. par_step hash no_clients (st, ps) s'"
proof -
  obtain i where i: "i < length ps" "p = ps ! i" using assms(3) by (auto simp: in_set_conv_nth)
  obtain st' p' where step: "tap_step hash st (ps ! i) st' p'" "st' = st \<or> tp_phase p' = Idle"
    using tap_step_exists [of hash st p] ok assms(3,4) i(2) by auto
  have "fresh_cas (ps[i := p']) st st'"
    unfolding fresh_cas_def
  proof (intro allI impI)
    fix key it assume changed: "st' key = Some it" "st' key \<noteq> st key"
    then have "owns hash (ps ! i) key"
      using tap_step_frame [OF step(1), of key] ok i(1) by (metis nth_mem)
    with held_other [OF ok assms(2) i(1)] step(2) changed show "i_cas it \<notin> held (ps[i := p']) key" by auto
  qed
  with par_step.tap [OF i(1) step(1)] show ?thesis by blast
qed

section \<open>A single process\<close>

text \<open>
  Steps of clients that change the CAS value of every record they change, as memcached sees to.
\<close>

definition versioned :: "rely \<Rightarrow> rely" where
  "versioned clients st st' \<longleftrightarrow> clients st st' \<and>
     (\<forall>key it it'. st key = Some it \<longrightarrow> st' key = Some it' \<longrightarrow> it' \<noteq> it \<longrightarrow> i_cas it' \<noteq> i_cas it)"

definition proc :: "vbucket list \<Rightarrow> message list \<Rightarrow> tap_phase \<Rightarrow> tap_proc" where
  "proc bs ms phase = \<lparr>tp_buckets = bs, tp_todo = ms, tp_phase = phase\<rparr>"

lemma proc_simps [simp]:
  "tp_buckets (proc bs ms ph) = bs" "tp_todo (proc bs ms ph) = ms" "tp_phase (proc bs ms ph) = ph"
  "(proc bs ms ph)\<lparr>tp_todo := ms'\<rparr> = proc bs ms' ph" "(proc bs ms ph)\<lparr>tp_phase := ph'\<rparr> = proc bs ms ph'"
  by (simp_all add: proc_def)

lemma fresh_cas_single:
  "ph = Idle \<or> ph = Looked_up None \<Longrightarrow> fresh_cas [proc bs ms ph] st st'"
  "versioned clients st st' \<Longrightarrow> fresh_cas [proc bs (m # ms) (Looked_up (st (key_of m)))] st st'"
  by (auto simp: fresh_cas_def held_def versioned_def)

lemma single_steps:
  "versioned clients st st' \<Longrightarrow> ph = Idle \<or> ph = Looked_up None \<Longrightarrow>
     par_step hash clients (st, [proc bs ms ph]) (st', [proc bs ms ph])"
  "versioned clients st st' \<Longrightarrow>
     par_step hash clients (st, [proc bs (m # ms) (Looked_up (st (key_of m)))])
       (st', [proc bs (m # ms) (Looked_up (st (key_of m)))])"
  "tap_step hash st (proc bs ms ph) st' p' \<Longrightarrow> p' = proc bs' ms' ph' \<Longrightarrow> ph' = Idle \<or> st' = st \<Longrightarrow>
     par_step hash clients (st, [proc bs ms ph]) (st', [p'])"
  using par_step.client [of clients st st'] par_step.tap [of 0 "[proc bs ms ph]" hash st st' p' clients]
  by (auto simp: versioned_def fresh_cas_single) (auto simp: fresh_cas_def)

section \<open>Properties\<close>

text \<open>
  C16: A tap thread never overwrites a record that is not older, whatever the other threads and
  clients do: in every reachable state of the machine, a step of a process that changes the
  record under a key writes a streamed record of one of its own vbuckets, and what was there
  before was missing or older. The CAS value rules out that the record changed after the
  process had compared the timestamps.
\<close>

theorem taps_never_overwrite_newer:
  assumes "(par_step hash clients)\<^sup>*\<^sup>* (st0, ps0) (st, ps)" "\<forall>p \<in> set ps0. tp_phase p = Idle"
    and "i < length ps" "tap_step hash st (ps ! i) st' p'" "st' key \<noteq> st key"
  shows "\<exists>m cas. m \<in> set (tp_todo (ps0 ! i)) \<and> key_of m = key \<and> accepted hash (tp_buckets (ps0 ! i)) key \<and>
    st' key = Some (item_of m cas) \<and> (\<forall>it. st key = Some it \<longrightarrow> ts_before (i_flags it) (mutate_flags m))"
proof -
  have "proc_ok hash st (ps ! i)" using par_run_ok [OF assms(1,2)] assms(3) by simp
  then obtain m ms cas where m: "tp_todo (ps ! i) = m # ms" "accepted hash (tp_buckets (ps ! i)) (key_of m)"
      "st' = st(key_of m \<mapsto> item_of m cas)" "\<forall>it. st (key_of m) = Some it \<longrightarrow> ts_before (i_flags it) (mutate_flags m)"
    using tap_step_effect [OF assms(4)] assms(5) by metis
  have "key_of m = key" using assms(5) m(3) by (metis fun_upd_other)
  moreover have "tp_buckets (ps ! i) = tp_buckets (ps0 ! i)" "m \<in> set (tp_todo (ps0 ! i))"
    using par_run_history [OF assms(1)] assms(3) m(1) by (auto simp: history_def)
  ultimately show ?thesis using m(2-4) by auto
qed

lemma wit_accepted: "accepted (\<lambda>_. 7) [0, 7] [1]" "key_of wit_mutation = [1]" "mutate_flags wit_mutation = 9"
  by (simp_all add: accepted_def vbucket_for_key_def starts_with_def ASTAIRE_KEY_PREFIX_def ascii_def)
    (simp_all add: wit_mutation_def)

lemma wit_look:
  "par_step (\<lambda>_. 7) clients (Map.empty, [proc [0, 7] [wit_mutation] Idle])
     (Map.empty, [proc [0, 7] [wit_mutation] (Looked_up None)])"
  using tap_step.look [of "proc [0, 7] [wit_mutation] Idle" wit_mutation "[]" "\<lambda>_. 7" Map.empty] wit_accepted
  by (intro single_steps(3)) auto

lemma wit_add:
  "tap_step (\<lambda>_. 7) Map.empty (proc [0, 7] [wit_mutation] (Looked_up None))
     [[1] \<mapsto> item_of wit_mutation 1] (proc [0, 7] [] Idle)"
  using tap_step.add [of "proc [0, 7] [wit_mutation] (Looked_up None)" wit_mutation "[]" Map.empty
      "[[1] \<mapsto> item_of wit_mutation 1]" "\<lambda>_. 7"]
  by (auto simp: wit_accepted add_item_def stores_def item_of_def)

text \<open>The witness: a record with the flags 3 is there, and is replaced by the streamed one with the flags 9.\<close>

definition wit_older :: item where
  "wit_older = \<lparr>i_value = [2], i_flags = 3, i_expiry = 0, i_cas = 4\<rparr>"

lemma wit_replace:
  "par_step (\<lambda>_. 7) clients ([[1] \<mapsto> wit_older], [proc [0, 7] [wit_mutation] Idle])
     ([[1] \<mapsto> wit_older], [proc [0, 7] [wit_mutation] (Looked_up (Some wit_older))])"
  "tap_step (\<lambda>_. 7) [[1] \<mapsto> wit_older] (proc [0, 7] [wit_mutation] (Looked_up (Some wit_older)))
     [[1] \<mapsto> item_of wit_mutation 5] (proc [0, 7] [] Idle)"
proof -
  show "par_step (\<lambda>_. 7) clients ([[1] \<mapsto> wit_older], [proc [0, 7] [wit_mutation] Idle])
     ([[1] \<mapsto> wit_older], [proc [0, 7] [wit_mutation] (Looked_up (Some wit_older))])"
    using tap_step.look [of "proc [0, 7] [wit_mutation] Idle" wit_mutation "[]" "\<lambda>_. 7" "[[1] \<mapsto> wit_older]"] wit_accepted
    by (intro single_steps(3)) auto
  have "ts_before (i_flags wit_older) (mutate_flags wit_mutation)"
    by (simp add: wit_older_def wit_accepted ts_before_wraps)
  moreover have "replace_item (i_cas wit_older) (key_of wit_mutation) (mutate_value wit_mutation) (mutate_flags wit_mutation)
      (mutate_expiry wit_mutation) [[1] \<mapsto> wit_older] [[1] \<mapsto> item_of wit_mutation 5]"
    by (auto simp: replace_item_def stores_def item_of_def wit_accepted)
  ultimately show "tap_step (\<lambda>_. 7) [[1] \<mapsto> wit_older] (proc [0, 7] [wit_mutation] (Looked_up (Some wit_older)))
     [[1] \<mapsto> item_of wit_mutation 5] (proc [0, 7] [] Idle)"
    using tap_step.replace [of "proc [0, 7] [wit_mutation] (Looked_up (Some wit_older))" wit_older wit_mutation "[]"] by simp
qed

theorem taps_never_overwrite_newer_witness:
  "\<exists>m cas. m \<in> set [wit_mutation] \<and> key_of m = [1] \<and> accepted (\<lambda>_. 7) [0, 7] [1] \<and>
     Some (item_of wit_mutation 5) = Some (item_of m cas) \<and> ts_before (i_flags wit_older) (mutate_flags m)"
proof -
  let ?ps = "[proc [0, 7] [wit_mutation] Idle]" and ?ps' = "[proc [0, 7] [wit_mutation] (Looked_up (Some wit_older))]"
  have "(par_step (\<lambda>_. 7) wit_clients)\<^sup>*\<^sup>* ([[1] \<mapsto> wit_older], ?ps) ([[1] \<mapsto> wit_older], ?ps')"
    using wit_replace(1) by (rule r_into_rtranclp)
  moreover have "item_of wit_mutation 5 \<noteq> wit_older" by (simp add: item_of_def wit_older_def)
  ultimately show ?thesis
    using taps_never_overwrite_newer [of "\<lambda>_. 7" wit_clients "[[1] \<mapsto> wit_older]" ?ps "[[1] \<mapsto> wit_older]" ?ps' 0
        "[[1] \<mapsto> item_of wit_mutation 5]" "proc [0, 7] [] Idle" "[1]"] wit_replace(2)
    by simp
qed

section \<open>The threads of a round\<close>

text \<open>The process of one tap of a round, which streams the records its server holds.\<close>

definition round_proc :: "(bytes \<Rightarrow> u32) \<Rightarrow> (server \<Rightarrow> message list) \<Rightarrow> server \<times> u16 list \<Rightarrow> tap_proc" where
  "round_proc hash content tap = proc (snd tap) (bucket_records hash (snd tap) (content (fst tap))) Idle"

lemma round_disjoint:
  assumes "smap_ok owl"
  shows "disjoint_taps (map (round_proc hash content) (fst (calculate_taps owl)))"
proof -
  let ?taps = "fst (calculate_taps owl)"
  have "i = j" if ij: "i < length ?taps" "j < length ?taps" "b \<in> set (snd (?taps ! i))" "b \<in> set (snd (?taps ! j))" for i j b
  proof -
    have first: "\<exists>rest. map_of owl b = Some (fst (?taps ! k) # rest)"
      if "k < length ?taps" "b \<in> set (snd (?taps ! k))" for k
      using calculate_taps_spec(2) [of "fst (?taps ! k)" "snd (?taps ! k)" owl] that
        in_first_at [OF assms, of b "fst (?taps ! k)"] by (metis nth_mem prod.collapse)
    from first [OF ij(1,3)] first [OF ij(2,4)] have "fst (?taps ! i) = fst (?taps ! j)" by auto
    with nth_eq_iff_index_eq [OF smap_ok_distinct [OF calculate_taps_spec(1) [of owl]], of i j] ij(1,2) show ?thesis by simp
  qed
  then show ?thesis by (auto simp: disjoint_taps_def round_proc_def)
qed

lemma run_procs_round: "run_procs hash (map (round_proc hash content) taps) st = fold (tap_merge hash content) taps st"
  unfolding run_procs_def by (induction taps arbitrary: st) (simp_all add: round_proc_def tap_merge_def)

text \<open>
  C18: The threads of a round may run in any order: every interleaving of their requests ends,
  after at most two steps for every streamed record, and when no step is left the local
  memcached holds the same records as if the threads had run one after the other, as theory
  \<open>Resync_Merge\<close> has them. The reason is that a round taps every vbucket once.
\<close>

theorem round_interleavings_merge:
  assumes "smap_ok owl"
    and "(par_step hash no_clients ^^ n) (st0, map (round_proc hash content) (fst (calculate_taps owl))) (st, ps)"
  shows "n \<le> (\<Sum>(server, bs) \<leftarrow> fst (calculate_taps owl). 2 * length (bucket_records hash bs (content server))) \<and>
    ((\<forall>s'. \<not> par_step hash no_clients (st, ps) s') \<longrightarrow>
       abs_store st = fold (tap_merge hash content) (fst (calculate_taps owl)) (abs_store st0))"
proof (intro conjI impI)
  let ?ps0 = "map (round_proc hash content) (fst (calculate_taps owl))"
  have run: "(par_step hash no_clients)\<^sup>*\<^sup>* (st0, ?ps0) (st, ps)" using assms(2) by (rule relpowp_imp_rtranclp)
  have idle: "\<forall>p \<in> set ?ps0. tp_phase p = Idle" by (auto simp: round_proc_def)
  note disjoint = round_disjoint [OF assms(1), of hash content]
  have "par_work ?ps0 = (\<Sum>(server, bs) \<leftarrow> fst (calculate_taps owl). 2 * length (bucket_records hash bs (content server)))"
    by (simp add: par_work_def proc_work_def round_proc_def comp_def split_def)
  with par_steps_bounded [OF assms(2)]
  show "n \<le> (\<Sum>(server, bs) \<leftarrow> fst (calculate_taps owl). 2 * length (bucket_records hash bs (content server)))" by simp
  assume stuck: "\<forall>s'. \<not> par_step hash no_clients (st, ps) s'"
  have "disjoint_taps ps" using history_buckets(3) [OF par_run_history [OF run]] disjoint by simp
  then have "\<forall>p \<in> set ps. tp_todo p = []"
    using par_not_stuck [OF par_run_ok [OF run idle]] stuck by blast
  from interleaving_merges [OF run idle disjoint this]
  show "abs_store st = fold (tap_merge hash content) (fst (calculate_taps owl)) (abs_store st0)"
    by (simp add: run_procs_round)
qed

theorem round_interleavings_merge_witness:
  "abs_store [[1] \<mapsto> item_of wit_mutation 1] =
     fold (tap_merge (\<lambda>_. 7) wit_content) (fst (calculate_taps [(7, [''b''])])) Map.empty"
proof -
  have taps: "calculate_taps [(7, [''b''])] = ([(''b'', [7])], [(7, [])])" by (simp add: calculate_taps_def smap_get_def)
  let ?ps = "map (round_proc (\<lambda>_. 7) wit_content) (fst (calculate_taps [(7, [''b''])]))"
    and ?st = "[[1] \<mapsto> item_of wit_mutation 1]"
  have ok: "smap_ok [(7 :: u16, [''b''])]" by (simp add: smap_ok_def)
  have acc: "accepted (\<lambda>_. 7) [7] [1]" using wit_accepted(1) by (simp add: accepted_def vbucket_for_key_def)
  have ps: "?ps = [proc [7] [wit_mutation] Idle]"
    by (simp add: taps round_proc_def bucket_records_def wit_content_def vbucket_for_key_def)
  have "par_step (\<lambda>_. 7) no_clients (Map.empty, ?ps) (Map.empty, [proc [7] [wit_mutation] (Looked_up None)])"
    unfolding ps using tap_step.look [of "proc [7] [wit_mutation] Idle" wit_mutation "[]" "\<lambda>_. 7" Map.empty] acc wit_accepted
    by (intro single_steps(3)) auto
  moreover have "par_step (\<lambda>_. 7) no_clients (Map.empty, [proc [7] [wit_mutation] (Looked_up None)]) (?st, [proc [7] [] Idle])"
    using tap_step.add [of "proc [7] [wit_mutation] (Looked_up None)" wit_mutation "[]" Map.empty ?st "\<lambda>_. 7"]
    by (intro single_steps(3)) (auto simp: wit_accepted add_item_def stores_def item_of_def)
  ultimately have run: "(par_step (\<lambda>_. 7) no_clients ^^ Suc (Suc 0)) (Map.empty, ?ps) (?st, [proc [7] [] Idle])"
    by (blast intro: relpowp_Suc_I relpowp_0_I)
  have "\<not> par_step (\<lambda>_. 7) no_clients (?st, [proc [7] [] Idle]) s'" for s'
    using par_step_work [of "\<lambda>_. 7" ?st "[proc [7] [] Idle]" "fst s'" "snd s'"]
    by (auto simp: par_work_def proc_work_def)
  with round_interleavings_merge [OF ok run] have
    "abs_store ?st = fold (tap_merge (\<lambda>_. 7) wit_content) (fst (calculate_taps [(7, [''b''])])) (abs_store Map.empty)"
    by blast
  then show ?thesis by (simp only: abs_store_empty)
qed

section \<open>The rounds of a resync\<close>

text \<open>
  The rounds of a resync in which no tap fails: the threads of a round run in parallel, in any
  order, and all of them are joined before the next round starts.
\<close>

inductive par_rounds :: "(bytes \<Rightarrow> u32) \<Rightarrow> (server \<Rightarrow> message list) \<Rightarrow> OutstandingWorkList \<Rightarrow> rely"
  for hash content where
  finish: "owl_empty owl \<Longrightarrow> par_rounds hash content owl st st"
| round: "\<not> owl_empty owl \<Longrightarrow>
    (par_step hash no_clients)\<^sup>*\<^sup>* (st, map (round_proc hash content) (fst (calculate_taps owl))) (st1, ps) \<Longrightarrow>
    \<forall>p \<in> set ps. tp_todo p = [] \<Longrightarrow> par_rounds hash content (snd (calculate_taps owl)) st1 st2 \<Longrightarrow>
    par_rounds hash content owl st st2"

lemma round_idle: "\<forall>p \<in> set (map (round_proc hash content) taps). tp_phase p = Idle"
  by (auto simp: round_proc_def)

lemma par_round_merges:
  assumes "smap_ok owl" "\<forall>p \<in> set ps. tp_todo p = []"
    and "(par_step hash no_clients)\<^sup>*\<^sup>* (st, map (round_proc hash content) (fst (calculate_taps owl))) (st', ps)"
  shows "abs_store st' = fold (tap_merge hash content) (fst (calculate_taps owl)) (abs_store st)"
  using interleaving_merges [OF assms(3) round_idle round_disjoint [OF assms(1)] assms(2)]
  by (simp add: run_procs_round)

lemma smap_ok_tail: "smap_ok owl \<Longrightarrow> smap_ok (snd (calculate_taps owl))"
  using smap_ok_left [of "[]" owl] by (simp add: calculate_taps_owl drop_failed_simps)

lemma par_rounds_merge:
  assumes "par_rounds hash content owl st st'" "smap_ok owl"
  shows "abs_store st' = abs_rounds hash content owl (abs_store st)"
  using assms
proof (induction rule: par_rounds.induct)
  case (finish owl st)
  then show ?case by (simp add: abs_rounds.simps [of hash content owl])
next
  case (round owl st st1 ps st2)
  from round.IH [OF smap_ok_tail [OF round.prems]] par_round_merges [OF round.prems round.hyps(3,2)] round.hyps(1)
  show ?case by (simp add: abs_rounds.simps [of hash content owl] calculate_taps_owl)
qed

text \<open>A run of a round can be brought to its end, however far it has come.\<close>

lemma round_ends:
  assumes "\<forall>p \<in> set ps. proc_ok hash st p" "disjoint_taps ps"
  shows "\<exists>st' ps'. (par_step hash no_clients)\<^sup>*\<^sup>* (st, ps) (st', ps') \<and> (\<forall>p \<in> set ps'. tp_todo p = [])"
  using assms
proof (induction "par_work ps" arbitrary: st ps rule: less_induct)
  case less
  show ?case
  proof (cases "\<forall>p \<in> set ps. tp_todo p = []")
    case False
    then obtain st1 ps1 where step: "par_step hash no_clients (st, ps) (st1, ps1)"
      using par_not_stuck [OF less.prems] by (metis surj_pair)
    have "disjoint_taps ps1"
      using history_buckets(3) [OF par_run_history [OF r_into_rtranclp, OF step]] less.prems(2) by simp
    with less.hyps [OF par_step_work [OF step] par_step_ok [OF step less.prems(1)]] step show ?thesis
      by (meson converse_rtranclp_into_rtranclp)
  qed blast
qed

lemma par_rounds_exist: "smap_ok owl \<Longrightarrow> \<exists>st'. par_rounds hash content owl st st'"
proof (induction "owl_size owl" arbitrary: owl st rule: less_induct)
  case less
  show ?case
  proof (cases "owl_empty owl")
    case False
    let ?ps = "map (round_proc hash content) (fst (calculate_taps owl))"
    have "\<forall>p \<in> set ?ps. proc_ok hash st p" using round_idle by (auto simp: proc_ok_def round_proc_def)
    from round_ends [OF this round_disjoint [OF less.prems]] obtain st1 ps where
      "(par_step hash no_clients)\<^sup>*\<^sup>* (st, ?ps) (st1, ps)" "\<forall>p \<in> set ps. tp_todo p = []"
      by blast
    moreover obtain st2 where "par_rounds hash content (snd (calculate_taps owl)) st1 st2"
      using less.hyps [OF _ smap_ok_tail [OF less.prems], of st1] owl_size_tail [OF False]
      by (auto simp: calculate_taps_owl)
    ultimately show ?thesis using False par_rounds.round by blast
  qed (blast intro: par_rounds.finish)
qed

text \<open>
  C6: A resync in which the tap threads of each round run in parallel has the outcome of the
  one whose threads run one after the other: the rounds can always be brought to their end, and
  all ways to interleave them leave the records of the abstract merge.
\<close>

theorem resync_interleavings_merge:
  assumes "owl = calculate_worklist self v full"
  shows "(\<exists>st'. par_rounds hash content owl st st') \<and>
    (\<forall>st'. par_rounds hash content owl st st' \<longrightarrow> abs_store st' = abs_rounds hash content owl (abs_store st))"
  unfolding assms using par_rounds_exist par_rounds_merge calculate_worklist_ok by blast

theorem resync_interleavings_merge_witness:
  "\<exists>st'. par_rounds (\<lambda>_. 1) wit_content (calculate_worklist ''a'' wit_view False) Map.empty st' \<and>
     abs_store st' = abs_rounds (\<lambda>_. 1) wit_content (calculate_worklist ''a'' wit_view False) Map.empty"
  using resync_interleavings_merge [OF refl, of "\<lambda>_. 1" wit_content "''a''" wit_view False Map.empty] by auto

end
