(* ===== verification/Tap_Clients.thy ===== *)
theory Tap_Clients
  imports Tap_Parallel
begin

text \<open>
  Tap threads next to other clients of the local memcached, such as Rogers. A tap thread of
  theory \<open>Tap\<close> is a process of the machine of theory \<open>Tap_Parallel\<close>, whatever the
  clients do between its requests, and next to clients that write new records nothing that is
  newer is lost.
\<close>

section \<open>The newest record wins\<close>

text \<open>
  Clients that write new records only: each is at least as new as what it overwrites and as
  the records \<open>S\<close> that are being streamed.
\<close>

definition newer_clients :: "(u32 \<Rightarrow> int) \<Rightarrow> u32 set \<Rightarrow> u32 set \<Rightarrow> rely" where
  "newer_clients time F S st st' \<longleftrightarrow>
     (\<forall>key. st' key = st key \<or>
        (\<exists>it. st' key = Some it \<and> i_flags it \<in> F \<and>
           (\<forall>f \<in> S. time f \<le> time (i_flags it)) \<and>
           (\<forall>it0. st key = Some it0 \<longrightarrow> time (i_flags it0) \<le> time (i_flags it))))"

definition era :: "u32 set \<Rightarrow> (bytes \<rightharpoonup> item) \<Rightarrow> bool" where
  "era F st \<longleftrightarrow> (\<forall>key it. st key = Some it \<longrightarrow> i_flags it \<in> F)"

definition grows :: "(u32 \<Rightarrow> int) \<Rightarrow> rely" where
  "grows time st st' \<longleftrightarrow>
     (\<forall>key it. st key = Some it \<longrightarrow> (\<exists>it'. st' key = Some it' \<and> time (i_flags it) \<le> time (i_flags it')))"

lemma at_least_item:
  "at_least time key f (abs_store st) \<longleftrightarrow> (\<exists>it. st key = Some it \<and> time f \<le> time (i_flags it))"
  by (auto simp: at_least_def flags_at_def abs_store_def rec_of_def split: option.splits)

lemma grows_at_least:
  "grows time st st' \<Longrightarrow> at_least time key f (abs_store st) \<Longrightarrow> at_least time key f (abs_store st')"
  unfolding at_least_item grows_def by (meson order_trans)

lemma newer_clients_grow:
  assumes "newer_clients time F S st st'" "era F st"
  shows "era F st' \<and> grows time st st'"
  using assms unfolding newer_clients_def era_def grows_def by (metis option.inject order_refl)

lemma tap_step_grows:
  assumes "tap_step hash st p st' p'" "proc_ok hash st p" "same_era time F" "era F st"
    and "mutate_flags ` set (tp_todo p) \<subseteq> F"
  shows "era F st' \<and> grows time st st'"
proof (cases "st' = st")
  case False
  from tap_step_effect [OF assms(1,2) False] obtain m ms cas where m: "tp_todo p = m # ms"
      "st' = st(key_of m \<mapsto> item_of m cas)" "\<forall>it. st (key_of m) = Some it \<longrightarrow> ts_before (i_flags it) (mutate_flags m)"
    by blast
  have F: "mutate_flags m \<in> F" using assms(5) m(1) by auto
  have "time (i_flags it) \<le> time (mutate_flags m)" if "st (key_of m) = Some it" for it
    using m(3) that ts_before_same_era [OF assms(3) _ F] assms(4) unfolding era_def by (metis less_imp_le)
  with assms(4) F m(2) show ?thesis
    by (auto simp: era_def grows_def item_of_def)
qed (use assms(4) in \<open>auto simp: grows_def\<close>)

text \<open>
  The state of one process: the records it has handled have arrived, and what it has looked up
  is still there unless a client has written something newer than the whole stream.
\<close>

definition arrived :: "(bytes \<Rightarrow> u32) \<Rightarrow> (u32 \<Rightarrow> int) \<Rightarrow> u32 set \<Rightarrow> tap_proc list \<Rightarrow> nat \<Rightarrow> message list \<Rightarrow>
    (bytes \<rightharpoonup> item) \<Rightarrow> tap_proc \<Rightarrow> bool" where
  "arrived hash time S ps0 i ms st p \<longleftrightarrow>
     (\<forall>m \<in> set ms. accepted hash (tp_buckets (ps0 ! i)) (key_of m) \<longrightarrow>
        at_least time (key_of m) (mutate_flags m) (abs_store st)) \<and>
     (\<forall>seen m ms'. tp_phase p = Looked_up seen \<longrightarrow> tp_todo p = m # ms' \<longrightarrow>
        st (key_of m) = seen \<or> (\<forall>f \<in> S. at_least time (key_of m) f (abs_store st)))"

lemma stores_at: "stores st st' key val flags expiry \<Longrightarrow> \<exists>it. st' key = Some it \<and> i_flags it = flags"
  by (auto simp: stores_def)

lemma arrived_own:
  assumes "tap_step hash st p st' p'" "same_era time F" "era F st" "S \<subseteq> F"
    and "mutate_flags ` set (tp_todo p) \<subseteq> S" "tp_todo p = ms @ tp_todo p'" "m \<in> set ms"
    and "accepted hash (tp_buckets p) (key_of m)"
    and seen: "\<And>seen m ms'. tp_phase p = Looked_up seen \<Longrightarrow> tp_todo p = m # ms' \<Longrightarrow>
      st (key_of m) = seen \<or> (\<forall>f \<in> S. at_least time (key_of m) f (abs_store st))"
  shows "at_least time (key_of m) (mutate_flags m) (abs_store st')"
  using assms(1)
proof (rule tap_stepE)
  fix m' ms' assume "p' = p\<lparr>tp_todo := ms'\<rparr>" "tp_todo p = m' # ms'" "\<not> accepted hash (tp_buckets p) (key_of m')"
  with assms(6-8) show ?thesis by auto
next
  fix m' assume "p' = p\<lparr>tp_phase := Looked_up (st (key_of m'))\<rparr>"
  then have "tp_todo p' = tp_todo p" by simp
  with assms(6,7) show ?thesis by simp
next
  fix it m' ms' assume p: "p' = p\<lparr>tp_todo := ms', tp_phase := Idle\<rparr>" "tp_phase p = Looked_up (Some it)"
    "tp_todo p = m' # ms'" "\<not> ts_before (i_flags it) (mutate_flags m')" "st' = st"
  then have m: "m' = m" "mutate_flags m \<in> S" using assms(5-7) by auto
  have "\<not> ts_before (i_flags it) (mutate_flags m) \<longrightarrow> st (key_of m) = Some it \<longrightarrow> time (mutate_flags m) \<le> time (i_flags it)"
    using ts_before_same_era [OF assms(2)] assms(3,4) m(2) unfolding era_def by (metis not_le subsetD)
  with seen [OF p(2,3)] p(4,5) m show ?thesis by (auto simp: at_least_item)
next
  fix m' ms' assume p: "p' = p\<lparr>tp_todo := ms', tp_phase := Idle\<rparr>" "tp_phase p = Looked_up None" "tp_todo p = m' # ms'"
    "add_item (key_of m') (mutate_value m') (mutate_flags m') (mutate_expiry m') st st'"
  then have m: "m' = m" "mutate_flags m \<in> S" using assms(5-7) by auto
  with seen [OF p(2,3)] p(4) show ?thesis
    by (auto simp: at_least_item add_item_def split: if_splits dest: stores_at)
next
  fix it m' ms' assume p: "p' = p\<lparr>tp_todo := ms', tp_phase := Idle\<rparr>" "tp_phase p = Looked_up (Some it)"
    "tp_todo p = m' # ms'" "replace_item (i_cas it) (key_of m') (mutate_value m') (mutate_flags m') (mutate_expiry m') st st'"
  then have m: "m' = m" "mutate_flags m \<in> S" using assms(5-7) by auto
  with seen [OF p(2,3)] p(4) show ?thesis
    by (auto simp: at_least_item replace_item_def split: if_splits option.splits dest: stores_at)
qed

text \<open>The start of a run that keeps the newest records.\<close>

definition newest_start :: "(u32 \<Rightarrow> int) \<Rightarrow> u32 set \<Rightarrow> u32 set \<Rightarrow> (bytes \<rightharpoonup> item) \<Rightarrow> tap_proc list \<Rightarrow> bool" where
  "newest_start time F S st0 ps0 \<longleftrightarrow>
     same_era time F \<and> S \<subseteq> F \<and> era F st0 \<and> disjoint_taps ps0 \<and>
     (\<forall>p \<in> set ps0. tp_phase p = Idle \<and> mutate_flags ` set (tp_todo p) \<subseteq> S)"

lemma newest_todo:
  assumes "history Q ps0 st ps" "newest_start time F S st0 ps0" "i < length ps0"
  shows "mutate_flags ` set (tp_todo (ps ! i)) \<subseteq> S"
proof -
  have "set (tp_todo (ps ! i)) \<subseteq> set (tp_todo (ps0 ! i))" using assms(1,3) by (auto simp: history_def)
  with assms(2,3) show ?thesis by (fastforce simp: newest_start_def)
qed

lemma par_step_grows:
  assumes "par_step hash (newer_clients time F S) (st, ps) (st', ps')" "history Q ps0 st ps"
    and "\<forall>p \<in> set ps. proc_ok hash st p" "era F st" "newest_start time F S st0 ps0"
  shows "era F st' \<and> grows time st st'"
  using assms(1)
proof (rule par_stepE)
  fix i p' assume i: "i < length ps" "tap_step hash st (ps ! i) st' p'"
  have "same_era time F" "S \<subseteq> F" using assms(5) by (simp_all add: newest_start_def)
  moreover have "mutate_flags ` set (tp_todo (ps ! i)) \<subseteq> S"
    using newest_todo [OF assms(2,5)] history_buckets(1) [OF assms(2)] i(1) by simp
  ultimately show ?thesis
    using tap_step_grows [OF i(2)] assms(3,4) i(1) by (meson nth_mem subset_trans)
qed (use newer_clients_grow assms(4) in blast)

lemma arrived_step:
  assumes step: "par_step hash (newer_clients time F S) (st, ps) (st', ps')"
    and hist: "history (arrived hash time S ps0) ps0 st ps"
    and ok: "\<forall>p \<in> set ps. proc_ok hash st p" and era: "era F st" and init: "newest_start time F S st0 ps0"
  shows "history (arrived hash time S ps0) ps0 st' ps' \<and> era F st' \<and> grows time st st'"
proof -
  note buckets = history_buckets [OF hist] and todo = newest_todo [OF hist init]
  note grow = par_step_grows [OF step hist ok era init]
  have start: "same_era time F" "S \<subseteq> F" "disjoint_taps ps0" using init by (simp_all add: newest_start_def)
  have ok_nth: "i < length ps0 \<Longrightarrow> proc_ok hash st (ps ! i)" for i using ok buckets(1) by simp
  have "history (arrived hash time S ps0) ps0 st' ps'"
  proof (rule history_step [OF step hist])
    fix i ms assume i: "i < length ps0" and Q: "arrived hash time S ps0 i ms st (ps ! i)"
    have bs: "tp_buckets (ps ! i) = tp_buckets (ps0 ! i)" using hist i by (simp add: history_def)
    have old: "\<forall>m \<in> set ms. accepted hash (tp_buckets (ps0 ! i)) (key_of m) \<longrightarrow>
        at_least time (key_of m) (mutate_flags m) (abs_store st')"
      using Q grow grows_at_least unfolding arrived_def by blast
    {
      fix ms' p' assume t: "tap_step hash st (ps ! i) st' p'" "tp_todo (ps ! i) = ms' @ tp_todo p'"
      have "at_least time (key_of m) (mutate_flags m) (abs_store st')"
        if "m \<in> set ms'" "accepted hash (tp_buckets (ps0 ! i)) (key_of m)" for m
        using Q that unfolding arrived_def
        by (intro arrived_own [OF t(1) start(1) era start(2) todo [OF i] t(2)]) (auto simp: bs)
      moreover have "st' (key_of m) = seen" if "tp_phase p' = Looked_up seen" "tp_todo p' = m # ms''" for seen m ms''
        using t(1) by (rule tap_stepE) (use that in auto)
      ultimately show "arrived hash time S ps0 i (ms @ ms') st' p'" using old unfolding arrived_def by auto
    next
      fix j p' assume j: "j < length ps0" "i \<noteq> j" "tap_step hash st (ps ! j) st' p'"
      have "st' (key_of m) = st (key_of m)" if "tp_phase (ps ! i) = Looked_up seen" "tp_todo (ps ! i) = m # ms'" for seen m ms'
        using tap_step_frame [OF j(3) ok_nth [OF j(1)]] disjoint_owns [OF start(3) i j(1)] j(2)
          accepted_owns [OF proc_ok_accepted [OF ok_nth [OF i] that]] buckets(2) [OF i] buckets(2) [OF j(1)] by blast
      with Q old grow grows_at_least show "arrived hash time S ps0 i ms st' (ps ! i)"
        unfolding arrived_def by metis
    next
      assume c: "newer_clients time F S st st'"
      have "st' (key_of m) = st (key_of m) \<or> (\<forall>f \<in> S. at_least time (key_of m) f (abs_store st'))" for m
        using c unfolding newer_clients_def at_least_item by metis
      with Q old grow grows_at_least show "arrived hash time S ps0 i ms st' (ps ! i)"
        unfolding arrived_def by metis
    }
  qed
  with grow show ?thesis by simp
qed

lemma arrived_run:
  assumes "(par_step hash (newer_clients time F S))\<^sup>*\<^sup>* (st0, ps0) (st, ps)" "newest_start time F S st0 ps0"
  shows "history (arrived hash time S ps0) ps0 st ps \<and> era F st"
  using assms(1)
proof (induction rule: rtranclp_induct2)
  case refl
  from assms(2) show ?case by (auto simp: newest_start_def arrived_def intro!: history_start)
next
  case (step st1 ps1 st2 ps2)
  have "\<forall>p \<in> set ps1. proc_ok hash st1 p"
    using par_run_ok [OF step(1)] assms(2) by (simp add: newest_start_def)
  with arrived_step [OF step(2)] step.IH assms(2) show ?case by blast
qed

lemma run_grows:
  assumes "(par_step hash (newer_clients time F S))\<^sup>*\<^sup>* (st0, ps0) (st1, ps1)" "newest_start time F S st0 ps0"
    and "(par_step hash (newer_clients time F S))\<^sup>*\<^sup>* (st1, ps1) (st2, ps2)"
  shows "grows time st1 st2"
  using assms(3)
proof (induction rule: rtranclp_induct2)
  case refl
  then show ?case by (simp add: grows_def)
next
  case (step st3 ps3 st4 ps4)
  have run: "(par_step hash (newer_clients time F S))\<^sup>*\<^sup>* (st0, ps0) (st3, ps3)"
    using assms(1) step(1) by (rule rtranclp_trans)
  have "\<forall>p \<in> set ps3. proc_ok hash st3 p"
    using par_run_ok [OF run] assms(2) by (simp add: newest_start_def)
  with arrived_step [OF step(2)] arrived_run [OF run assms(2)] assms(2) have "grows time st3 st4" by blast
  with step.IH show ?case unfolding grows_def by (meson order_trans)
qed

section \<open>A tap thread is a process\<close>

lemma write_after_steps:
  assumes "write_after (versioned clients) (key_of m) (mutate_value m) (mutate_flags m) (mutate_expiry m)
    (st (key_of m)) st st'"
  shows "(par_step hash clients)\<^sup>*\<^sup>* (st, [proc bs (m # ms) (Looked_up (st (key_of m)))]) (st', [proc bs ms Idle])"
proof -
  let ?p = "proc bs (m # ms) (Looked_up (st (key_of m)))" and ?step = "par_step hash clients"
  have two: "?step\<^sup>*\<^sup>* (st, [?p]) (st', [proc bs ms Idle])"
    if "versioned clients st st1" "tap_step hash st1 ?p st' (proc bs ms Idle)" for st1
    using single_steps(2) [OF that(1)] single_steps(3) [OF that(2) refl]
    by (metis (no_types) converse_rtranclp_into_rtranclp r_into_rtranclp)
  show ?thesis
  proof (cases "st (key_of m)")
    case None
    with assms obtain st1 where "versioned clients st st1"
        "add_item (key_of m) (mutate_value m) (mutate_flags m) (mutate_expiry m) st1 st'"
      by (auto simp: write_after_def)
    with None tap_step.add [of ?p m ms st1 st' hash] show ?thesis by (intro two) auto
  next
    case (Some it)
    show ?thesis
    proof (cases "ts_before (i_flags it) (mutate_flags m)")
      case True
      with assms Some obtain st1 where "versioned clients st st1"
          "replace_item (i_cas it) (key_of m) (mutate_value m) (mutate_flags m) (mutate_expiry m) st1 st'"
        by (auto simp: write_after_def)
      with Some True tap_step.replace [of ?p it m ms st1 st' hash] show ?thesis by (intro two) auto
    next
      case False
      with assms Some have "st' = st" by (simp add: write_after_def)
      with Some False tap_step.keep [of ?p it m ms hash st] show ?thesis
        by (intro r_into_rtranclp single_steps(3)) auto
    qed
  qed
qed

lemma record_run_steps:
  assumes "record_run (versioned clients) hash bs m st st'"
  shows "(par_step hash clients)\<^sup>*\<^sup>* (st, [proc bs (m # ms) Idle]) (st', [proc bs ms Idle])"
proof (cases "accepted hash bs (key_of m)")
  case False
  with assms have "st' = st" by (simp add: record_run_def)
  then show ?thesis
    using False tap_step.skip [of "proc bs (m # ms) Idle" m ms hash st]
    by (intro r_into_rtranclp single_steps(3)) auto
next
  case True
  let ?p = "proc bs (m # ms)"
  obtain st1 where st1: "versioned clients st st1"
      and after: "write_after (versioned clients) (key_of m) (mutate_value m) (mutate_flags m) (mutate_expiry m) (st1 (key_of m)) st1 st'"
    using assms True by (auto simp: record_run_def Let_def)
  have "par_step hash clients (st, [?p Idle]) (st1, [?p Idle])"
    using st1 by (intro single_steps(1)) simp_all
  moreover have "par_step hash clients (st1, [?p Idle]) (st1, [?p (Looked_up (st1 (key_of m)))])"
    using True tap_step.look [of "?p Idle" m ms hash st1] by (intro single_steps(3)) auto
  ultimately show ?thesis
    using write_after_steps [OF after] by (meson converse_rtranclp_into_rtranclp)
qed

lemma threaded_steps:
  "threaded (\<lambda>m a b. record_run (versioned clients) hash bs m (view a) (view b)) ms a b \<Longrightarrow>
     (par_step hash clients)\<^sup>*\<^sup>* (view a, [proc bs ms Idle]) (view b, [proc bs [] Idle])"
proof (induction ms arbitrary: a)
  case (Cons m ms)
  then obtain a' where "record_run (versioned clients) hash bs m (view a) (view a')"
      "(par_step hash clients)\<^sup>*\<^sup>* (view a', [proc bs ms Idle]) (view b, [proc bs [] Idle])"
    by auto
  with record_run_steps show ?case by (meson rtranclp_trans)
qed simp

lemma tap_thread_steps:
  assumes "shared_contract (versioned clients) peer view" "keeps_small clients"
    and "small (view (ts_memcached s))"
    and "connects shp local_env (td_local_server d)" "connects shp tap_env (td_tap_server d)"
    and "streams tap_peer t (td_buckets d) pre ms []" "length pre = 8"
    and "has_buckets (td_conn_stats d) (td_buckets d) (ts_per_conn s)"
  shows "\<exists>s'. tap_buckets_thread shp local_env tap_env hash oob clk peer tap_peer t d s = Returns s' \<and>
    ts_success s' \<and>
    (par_step hash clients)\<^sup>*\<^sup>* (view (ts_memcached s), [proc (td_buckets d) ms Idle])
      (view (ts_memcached s'), [proc (td_buckets d) [] Idle])"
proof -
  have "keeps_small (versioned clients)" using assms(2) by (auto simp: keeps_small_def versioned_def)
  from tap_thread_threaded [OF handles_records [OF assms(1) this] assms(3-6) cut_short_Nil [OF assms(7)] assms(8)]
  show ?thesis using threaded_steps [of clients hash "td_buckets d" view ms "ts_memcached s"] by blast
qed

section \<open>Properties\<close>

text \<open>
  C17: A tap thread that shares the local memcached with other clients is a process of the
  interleaving machine: whatever these clients do between its requests, the thread returns
  successfully, and the local memcached has gone through a run of the machine in which the
  process has handled the whole stream.
\<close>

theorem tap_thread_is_process:
  assumes "shared_contract (versioned clients) peer view" "keeps_small clients"
    and "small (view (ts_memcached s))"
    and "connects shp local_env (td_local_server d)" "connects shp tap_env (td_tap_server d)"
    and "streams tap_peer t (td_buckets d) pre ms []" "length pre = 8"
    and "has_buckets (td_conn_stats d) (td_buckets d) (ts_per_conn s)"
  shows "\<exists>s'. tap_buckets_thread shp local_env tap_env hash oob clk peer tap_peer t d s = Returns s' \<and>
    ts_success s' \<and>
    (par_step hash clients)\<^sup>*\<^sup>* (view (ts_memcached s), [proc (td_buckets d) ms Idle])
      (view (ts_memcached s'), [proc (td_buckets d) [] Idle])"
  by (rule tap_thread_steps [OF assms])

text \<open>
  A memcached with a second client, which writes the record of one key before those requests
  that the schedule names.
\<close>

definition wit_write :: "(bytes \<rightharpoonup> item) \<Rightarrow> (bytes \<rightharpoonup> item)" where
  "wit_write st = st([1] \<mapsto> \<lparr>i_value = [7], i_flags = 12, i_expiry = 0,
     i_cas = case st [1] of None \<Rightarrow> 0 | Some it \<Rightarrow> i_cas it + 1\<rparr>)"

definition disturb :: "bool list \<Rightarrow> (bytes \<rightharpoonup> item) \<Rightarrow> (bytes \<rightharpoonup> item)" where
  "disturb sched st = (if sched \<noteq> [] \<and> hd sched then wit_write st else st)"

definition wit_clients :: rely where
  "wit_clients st st' \<longleftrightarrow> st' = st \<or> st' = wit_write st"

definition wit_shared :: "(bool list \<times> (bytes \<rightharpoonup> item) \<times> u64) peer" where
  "wit_shared m bin =
     (let (p, sent, evs) = ref_memcached (disturb (fst m) (fst (snd m)), snd (snd m)) bin
      in ((tl (fst m), p), sent, evs))"

lemma wit_clients_steps:
  "keeps_small wit_clients" "versioned wit_clients st (disturb sched st)"
  by (auto simp: keeps_small_def wit_clients_def wit_write_def disturb_def small_def versioned_def split: if_splits)

lemma wit_shared_contract: "shared_contract (versioned wit_clients) wit_shared (\<lambda>m. fst (snd m))"
proof -
  let ?st = "\<lambda>m :: bool list \<times> (bytes \<rightharpoonup> item) \<times> u64. disturb (fst m) (fst (snd m))"
  have rely: "versioned wit_clients (fst (snd m)) (?st m)" for m by (rule wit_clients_steps)
  have step: "ref_memcached (?st m, snd (snd m)) bin = (p, True, evs) \<Longrightarrow> wit_shared m bin = ((tl (fst m), p), True, evs)"
    for m bin p evs
    by (simp add: wit_shared_def)
  have small: "small (fst (snd m)) \<Longrightarrow> small (fst (?st m, snd (snd m)))" for m
    using wit_clients_steps(1) rely [of m] by (auto simp: keeps_small_def versioned_def)
  have "\<exists>m' evs rsp. wit_shared m (to_wire (new_GetReq key 0)) = (m', True, evs) \<and> delivers evs rsp \<and>
      length (to_wire rsp) < 2 ^ 32 \<and> versioned wit_clients (fst (snd m)) (fst (snd m')) \<and>
      (case fst (snd m') key of None \<Rightarrow> \<exists>body. rsp = get_miss body | Some it \<Rightarrow> rsp = get_hit it)"
    if key: "length key < 2 ^ 16" "small (fst (snd m))" for m key
  proof -
    obtain evs rsp where "ref_memcached (?st m, snd (snd m)) (to_wire (new_GetReq key 0)) =
        ((?st m, snd (snd m)), True, evs)" "delivers evs rsp" "length (to_wire rsp) < 2 ^ 32"
        "case ?st m key of None \<Rightarrow> \<exists>body. rsp = get_miss body | Some it \<Rightarrow> rsp = get_hit it"
      using ref_memcached_get [OF key(1) small [OF key(2)]] by auto
    with step [OF this(1)] rely [of m] show ?thesis
      by (intro exI [of _ "(tl (fst m), ?st m, snd (snd m))"] exI [of _ evs] exI [of _ rsp]) simp
  qed
  moreover have "\<exists>m' evs status cas st. wit_shared m (to_wire (new_AddReq key vb val flags expiry)) = (m', True, evs) \<and>
      delivers evs (write_rsp ADD status cas) \<and> versioned wit_clients (fst (snd m)) st \<and>
      add_item key val flags expiry st (fst (snd m'))"
    if "fits key val" for m key vb val flags expiry
    using ref_memcached_writes(1) [OF that, of "(?st m, snd (snd m))" vb flags expiry] step rely [of m] delivers_one
    by (metis fst_conv snd_conv)
  moreover have "\<exists>m' evs status cas' st. wit_shared m (to_wire (new_ReplaceReq key vb val cas flags expiry)) = (m', True, evs) \<and>
      delivers evs (write_rsp REPLACE status cas') \<and> versioned wit_clients (fst (snd m)) st \<and>
      replace_item cas key val flags expiry st (fst (snd m'))"
    if "fits key val" for m key vb val cas flags expiry
    using ref_memcached_writes(2) [OF that, of "(?st m, snd (snd m))" vb cas flags expiry] step rely [of m] delivers_one
    by (metis fst_conv snd_conv)
  ultimately show ?thesis
    unfolding shared_contract_def get_contract_def add_contract_def replace_contract_def by blast
qed

theorem tap_thread_is_process_witness:
  "\<exists>s'. tap_buckets_thread wit_shp wit_env wit_env (\<lambda>_. 7) (\<lambda>_. 0) (\<lambda>_. (0, True)) wit_shared
       wit_stream () wit_data (wit_tap_state ([False, True], Map.empty, 1)) = Returns s' \<and> ts_success s' \<and>
     (par_step (\<lambda>_. 7) wit_clients)\<^sup>*\<^sup>* (Map.empty, [proc [0, 7] [wit_mutation] Idle])
       (fst (snd (ts_memcached s')), [proc [0, 7] [] Idle])"
proof -
  have "small (fst (snd (ts_memcached (wit_tap_state ([False, True], Map.empty, 1)))))" by (simp add: small_def)
  from tap_thread_is_process [where hash = "\<lambda>_. 7" and oob = "\<lambda>_. 0" and clk = "\<lambda>_. (0, True)",
      OF wit_shared_contract wit_clients_steps(1) this wit_connects wit_connects wit_streams _ wit_has_buckets]
  show ?thesis by (simp add: wit_data_def)
qed

text \<open>
  C7: Next to clients that write new records, the parallel taps lose nothing: a record that is
  in the local memcached at any moment, written by whomever, is there at every later moment or
  has been overwritten by one at least as new, and when a tap has come to the end of its
  stream, each of its records is there or a record at least as new. This needs that
  the taps have different vbuckets, and that the clients' records are at least as new as what
  they overwrite and as the streams.
\<close>

theorem concurrent_taps_keep_newest:
  assumes "newest_start time F S st0 ps0"
    and "(par_step hash (newer_clients time F S))\<^sup>*\<^sup>* (st0, ps0) (st1, ps1)"
    and "(par_step hash (newer_clients time F S))\<^sup>*\<^sup>* (st1, ps1) (st2, ps2)"
  shows "(at_least time key f (abs_store st1) \<longrightarrow> at_least time key f (abs_store st2)) \<and>
    (\<forall>i < length ps0. \<forall>m \<in> set (tp_todo (ps0 ! i)).
       tp_todo (ps1 ! i) = [] \<longrightarrow> accepted hash (tp_buckets (ps0 ! i)) (key_of m) \<longrightarrow>
       at_least time (key_of m) (mutate_flags m) (abs_store st2))"
proof (intro conjI impI allI ballI)
  note grows = run_grows [OF assms(2,1,3)]
  show "at_least time key f (abs_store st1) \<Longrightarrow> at_least time key f (abs_store st2)"
    using grows_at_least [OF grows] by blast
  fix i m assume i: "i < length ps0" "m \<in> set (tp_todo (ps0 ! i))" "tp_todo (ps1 ! i) = []"
    "accepted hash (tp_buckets (ps0 ! i)) (key_of m)"
  with arrived_run [OF assms(2,1)] have "at_least time (key_of m) (mutate_flags m) (abs_store st1)"
    by (auto simp: history_def arrived_def)
  then show "at_least time (key_of m) (mutate_flags m) (abs_store st2)" by (rule grows_at_least [OF grows])
qed

lemma wit_client: "newer_clients uint {9, 12} {9} Map.empty (wit_write Map.empty)"
  by (simp add: newer_clients_def wit_write_def)

text \<open>A client writes between the GET and the ADD of the record; the ADD is refused.\<close>

theorem concurrent_taps_keep_newest_witness:
  "at_least uint [1] 12 (abs_store (wit_write Map.empty)) \<and> at_least uint [1] 9 (abs_store (wit_write Map.empty))"
proof -
  let ?step = "par_step (\<lambda>_. 7) (newer_clients uint {9, 12} {9})" and ?st = "wit_write Map.empty"
  let ?ps0 = "[proc [0, 7] [wit_mutation] Idle]" and ?ps1 = "[proc [0, 7] [wit_mutation] (Looked_up None)]"
    and ?ps2 = "[proc [0, 7] [] Idle]"
  have "?step (Map.empty, ?ps0) (Map.empty, ?ps1)" by (rule wit_look)
  moreover have "?step (Map.empty, ?ps1) (?st, ?ps1)"
    using wit_client fresh_cas_single(1) by (intro par_step.client) auto
  moreover have "tap_step (\<lambda>_. 7) ?st (proc [0, 7] [wit_mutation] (Looked_up None)) ?st (proc [0, 7] [] Idle)"
    using tap_step.add [of "proc [0, 7] [wit_mutation] (Looked_up None)" wit_mutation "[]" ?st ?st "\<lambda>_. 7"]
    by (auto simp: wit_accepted add_item_def wit_write_def)
  then have "?step (?st, ?ps1) (?st, ?ps2)" by (intro single_steps(3)) auto
  ultimately have run: "?step\<^sup>*\<^sup>* (Map.empty, ?ps0) (?st, ?ps2)"
    by (meson converse_rtranclp_into_rtranclp r_into_rtranclp)
  have init: "newest_start uint {9, 12} {9} Map.empty ?ps0"
    by (auto simp: newest_start_def same_era_def era_def disjoint_taps_def wit_accepted)
  have "at_least uint [1] 12 (abs_store ?st)" by (simp add: at_least_item wit_write_def)
  moreover have "at_least uint (key_of wit_mutation) (mutate_flags wit_mutation) (abs_store ?st)"
    using concurrent_taps_keep_newest [OF init run rtranclp.rtrancl_refl] wit_accepted(1,2) by (auto simp: proc_def)
  ultimately show ?thesis by (simp add: wit_accepted)
qed

end
