(* ===== verification/Reporter.thy ===== *)
theory Reporter
  imports Statistics
begin

text \<open>
  The reporting thread of \<open>AstaireGlobalStatistics\<close> and its destructor: a step relation over the
  mutex, the condition variable and the flag that ends the thread, with the threads that change
  the statistics meanwhile.
\<close>

section \<open>The reporting thread and the destructor\<close>

text \<open>
  \<open>T_Loop\<close>: the thread has the mutex and is about to look at the flag. \<open>T_Waiting\<close>: it is in
  \<open>pthread_cond_timedwait\<close>, which gives up the mutex; \<open>T_Woken\<close>: it has been woken, by the signal,
  by the end of the second or for no reason, and needs the mutex again.
\<close>

datatype reporter_phase = T_Start | T_Loop | T_Waiting | T_Woken | T_Done

datatype destructor_phase = D_NotCalled | D_Locked | D_Joining | D_Done

datatype mutex_owner = By_thread | By_destructor

record reporter =
  rp_stats :: global_stats
  rp_constructed :: bool
  rp_mutex :: "mutex_owner option"
  rp_terminated :: bool
  rp_thread :: reporter_phase
  rp_destructor :: destructor_phase

text \<open>
  The constructor starts the thread first and resets the statistics then. Until it has, the
  members hold what was in memory, \<open>junk\<close>.
\<close>

definition new_reporter :: "global_stats \<Rightarrow> u64 \<Rightarrow> reporter" where
  "new_reporter junk period_us =
     \<lparr>rp_stats = junk\<lparr>gs_period_us := period_us, gs_reports := []\<rparr>, rp_constructed = False, rp_mutex = None,
      rp_terminated = False, rp_thread = T_Start, rp_destructor = D_NotCalled\<rparr>"

inductive thread_step :: "reporter \<Rightarrow> reporter \<Rightarrow> bool" where
  lock: "rp_thread r = T_Start \<Longrightarrow> rp_mutex r = None \<Longrightarrow>
    thread_step r (r\<lparr>rp_thread := T_Loop, rp_mutex := Some By_thread\<rparr>)"
| wait: "rp_thread r = T_Loop \<Longrightarrow> \<not> rp_terminated r \<Longrightarrow>
    thread_step r (r\<lparr>rp_thread := T_Waiting, rp_mutex := None\<rparr>)"
| finish: "rp_thread r = T_Loop \<Longrightarrow> rp_terminated r \<Longrightarrow>
    thread_step r (r\<lparr>rp_thread := T_Done, rp_mutex := None\<rparr>)"
| wake: "rp_thread r = T_Waiting \<Longrightarrow> thread_step r (r\<lparr>rp_thread := T_Woken\<rparr>)"
| turn: "rp_thread r = T_Woken \<Longrightarrow> rp_mutex r = None \<Longrightarrow>
    thread_step r (r\<lparr>rp_thread := T_Loop, rp_mutex := Some By_thread, rp_stats := gs_thread_func_turn t (rp_stats r)\<rparr>)"

inductive destructor_step :: "reporter \<Rightarrow> reporter \<Rightarrow> bool" where
  lock: "rp_constructed r \<Longrightarrow> rp_destructor r = D_NotCalled \<Longrightarrow> rp_mutex r = None \<Longrightarrow>
    destructor_step r (r\<lparr>rp_destructor := D_Locked, rp_mutex := Some By_destructor\<rparr>)"
| terminate: "rp_destructor r = D_Locked \<Longrightarrow>
    destructor_step r (r\<lparr>rp_destructor := D_Joining, rp_terminated := True, rp_mutex := None,
      rp_thread := (if rp_thread r = T_Waiting then T_Woken else rp_thread r)\<rparr>)"
| join: "rp_destructor r = D_Joining \<Longrightarrow> rp_thread r = T_Done \<Longrightarrow>
    destructor_step r (r\<lparr>rp_destructor := D_Done\<rparr>)"

text \<open>
  Other threads count keys, bytes and vbuckets, set the total or reset the statistics, until
  the destructor has returned.
\<close>

datatype stat_op =
  Set_total u32 | Inc_buckets u32 | Inc_keys u32 | Inc_bytes u32 | Inc_bandwidth u32 | Reset u64

fun apply_op :: "tick \<Rightarrow> stat_op \<Rightarrow> global_stats \<Rightarrow> global_stats" where
  "apply_op t (Set_total n) = gs_set_total_buckets t n"
| "apply_op t (Inc_buckets n) = gs_increment_resynced_bucket_count t n"
| "apply_op t (Inc_keys n) = gs_increment_resynced_keys_count t n"
| "apply_op t (Inc_bytes n) = gs_increment_resynced_bytes_count t n"
| "apply_op t (Inc_bandwidth n) = gs_increment_bandwidth t n"
| "apply_op t (Reset now) = gs_reset now t"

inductive reporter_step :: "reporter \<Rightarrow> reporter \<Rightarrow> bool" where
  thread: "thread_step r r' \<Longrightarrow> reporter_step r r'"
| destructor: "destructor_step r r' \<Longrightarrow> reporter_step r r'"
| constructor: "\<not> rp_constructed r \<Longrightarrow>
    reporter_step r (r\<lparr>rp_stats := gs_reset now t (rp_stats r), rp_constructed := True\<rparr>)"
| other: "rp_constructed r \<Longrightarrow> rp_destructor r \<noteq> D_Done \<Longrightarrow> reporter_step r (r\<lparr>rp_stats := apply_op t f (rp_stats r)\<rparr>)"

inductive_cases thread_stepE: "thread_step r r'"
inductive_cases destructor_stepE: "destructor_step r r'"
inductive_cases reporter_stepE: "reporter_step r r'"

section \<open>Invariant\<close>

definition reporter_ok :: "reporter \<Rightarrow> bool" where
  "reporter_ok r \<longleftrightarrow>
     rp_mutex r = (if rp_thread r = T_Loop then Some By_thread
       else if rp_destructor r = D_Locked then Some By_destructor else None) \<and>
     (rp_terminated r \<longleftrightarrow> rp_destructor r \<in> {D_Joining, D_Done}) \<and>
     (rp_thread r = T_Loop \<longrightarrow> rp_destructor r \<noteq> D_Locked) \<and>
     (rp_thread r = T_Done \<longrightarrow> rp_terminated r) \<and>
     (rp_destructor r = D_Done \<longrightarrow> rp_thread r = T_Done)"

lemma reporter_ok_step:
  assumes "reporter_step r r'" "reporter_ok r"
  shows "reporter_ok r'"
  using assms(1)
proof (rule reporter_stepE)
  assume "thread_step r r'"
  then show ?thesis by (rule thread_stepE) (use assms(2) in \<open>auto simp: reporter_ok_def split: if_splits\<close>)
next
  assume "destructor_step r r'"
  then show ?thesis by (rule destructor_stepE) (use assms(2) in \<open>auto simp: reporter_ok_def split: if_splits\<close>)
next
  fix now t assume "r' = r\<lparr>rp_stats := gs_reset now t (rp_stats r), rp_constructed := True\<rparr>"
  with assms(2) show ?thesis by (auto simp: reporter_ok_def)
next
  fix t f assume "r' = r\<lparr>rp_stats := apply_op t f (rp_stats r)\<rparr>"
  with assms(2) show ?thesis by (auto simp: reporter_ok_def)
qed

lemma reporter_ok_reachable: "reporter_step\<^sup>*\<^sup>* (new_reporter junk period_us) r \<Longrightarrow> reporter_ok r"
  by (induction rule: rtranclp_induct) (simp add: reporter_ok_def new_reporter_def, rule reporter_ok_step)

text \<open>
  How many steps the thread has left once it is told to end, and how many reports it can still
  make then.
\<close>

definition thread_left :: "reporter \<Rightarrow> nat" where
  "thread_left r = (case rp_thread r of T_Start \<Rightarrow> 2 | T_Loop \<Rightarrow> 1 | T_Waiting \<Rightarrow> 3 | T_Woken \<Rightarrow> 2 | T_Done \<Rightarrow> 0)"

definition turns_left :: "reporter \<Rightarrow> nat" where
  "turns_left r = (if rp_thread r \<in> {T_Waiting, T_Woken} then 1 else 0)"

lemma thread_step_left:
  assumes "thread_step r r'" "rp_terminated r"
  shows "Suc (thread_left r') = thread_left r" "rp_terminated r'" "rp_destructor r' = rp_destructor r"
  using assms by (auto elim!: thread_stepE simp: thread_left_def)

text \<open>The thread is never blocked for good while the destructor waits for it.\<close>

lemma joining_not_stuck:
  assumes "reporter_ok r" "rp_destructor r = D_Joining" "rp_thread r \<noteq> T_Done"
  shows "\<exists>r'. thread_step r r'"
  using assms
  by (cases "rp_thread r") (auto simp: reporter_ok_def intro: thread_step.intros)

lemma joining_ends:
  assumes "reporter_ok r" "rp_destructor r = D_Joining"
  shows "\<exists>r'. (thread_step ^^ thread_left r) r r' \<and> rp_thread r' = T_Done \<and> rp_destructor r' = D_Joining"
  using assms
proof (induction "thread_left r" arbitrary: r)
  case 0
  then show ?case by (auto simp: thread_left_def split: reporter_phase.splits)
next
  case (Suc n)
  then have "rp_thread r \<noteq> T_Done" by (auto simp: thread_left_def)
  then obtain r1 where r1: "thread_step r r1" using joining_not_stuck Suc.prems by blast
  have "rp_terminated r" using Suc.prems by (simp add: reporter_ok_def)
  note left = thread_step_left [OF r1 this]
  have "reporter_ok r1" using reporter_ok_step [OF reporter_step.thread [OF r1] Suc.prems(1)] .
  moreover have "thread_left r1 = n" using left(1) Suc.hyps(2) by simp
  ultimately obtain r2 where "(thread_step ^^ thread_left r1) r1 r2" "rp_thread r2 = T_Done" "rp_destructor r2 = D_Joining"
    using Suc.hyps(1) [of r1] left(3) Suc.prems(2) by auto
  with relpowp_Suc_I2 [OF r1 this(1)] left(1) show ?case by auto
qed

lemma thread_steps_left:
  assumes "(thread_step ^^ n) r r'" "rp_terminated r"
  shows "n + thread_left r' = thread_left r \<and> rp_terminated r' \<and>
    length (gs_reports (rp_stats r')) + turns_left r' \<le> length (gs_reports (rp_stats r)) + turns_left r"
  using assms
proof (induction n arbitrary: r')
  case (Suc n)
  then obtain r1 where r1: "(thread_step ^^ n) r r1" "thread_step r1 r'" by auto
  have ih: "n + thread_left r1 = thread_left r" "rp_terminated r1"
      "length (gs_reports (rp_stats r1)) + turns_left r1 \<le> length (gs_reports (rp_stats r)) + turns_left r"
    using Suc.IH [OF r1(1) Suc.prems(2)] by simp_all
  have "length (gs_reports (rp_stats r')) + turns_left r' \<le> length (gs_reports (rp_stats r1)) + turns_left r1"
    using r1(2) ih(2)
    by (auto elim!: thread_stepE simp: turns_left_def gs_thread_func_turn_def gs.forced_refresh_reports)
  with ih thread_step_left [OF r1(2) ih(2)] show ?case by simp
qed simp

section \<open>Properties\<close>

text \<open>
  C34: The destructor of the statistics ends the reporting thread. Once it has set the flag, the
  thread makes at most three more steps and at most one more report, it is not blocked by the
  mutex, and the destructor returns when these steps are done. No wake-up is lost, whatever the
  thread was doing when the flag was set.
\<close>

theorem reporter_ends:
  assumes "reporter_step\<^sup>*\<^sup>* (new_reporter junk period_us) r" "rp_destructor r = D_Joining"
  shows "(\<forall>n r'. (thread_step ^^ n) r r' \<longrightarrow>
      n \<le> 3 \<and> length (gs_reports (rp_stats r')) \<le> length (gs_reports (rp_stats r)) + 1) \<and>
    (\<exists>r1 r2. thread_step\<^sup>*\<^sup>* r r1 \<and> rp_thread r1 = T_Done \<and> destructor_step r1 r2 \<and> rp_destructor r2 = D_Done)"
proof (intro conjI allI impI)
  note ok = reporter_ok_reachable [OF assms(1)]
  then have flag: "rp_terminated r" using assms(2) by (simp add: reporter_ok_def)
  have bounds: "thread_left r \<le> 3" "turns_left r \<le> 1"
    by (simp_all add: thread_left_def turns_left_def split: reporter_phase.splits)
  fix n r' assume "(thread_step ^^ n) r r'"
  from thread_steps_left [OF this flag] bounds
  show "n \<le> 3" "length (gs_reports (rp_stats r')) \<le> length (gs_reports (rp_stats r)) + 1" by linarith+
next
  obtain r1 where r1: "(thread_step ^^ thread_left r) r r1" "rp_thread r1 = T_Done" "rp_destructor r1 = D_Joining"
    using joining_ends [OF reporter_ok_reachable [OF assms(1)] assms(2)] by blast
  have "destructor_step r1 (r1\<lparr>rp_destructor := D_Done\<rparr>)" using r1(2,3) by (intro destructor_step.join)
  with relpowp_imp_rtranclp [OF r1(1)] r1(2)
  show "\<exists>r1 r2. thread_step\<^sup>*\<^sup>* r r1 \<and> rp_thread r1 = T_Done \<and> destructor_step r1 r2 \<and> rp_destructor r2 = D_Done"
    by (metis reporter.select_convs(6) reporter.surjective reporter.update_convs(6))
qed

text \<open>The witness: the destructor is called while the thread waits.\<close>

lemma wit_joining: "\<exists>r. reporter_step\<^sup>*\<^sup>* (new_reporter junk period_us) r \<and> rp_destructor r = D_Joining \<and> rp_thread r = T_Woken"
proof -
  let ?r = "new_reporter junk period_us"
  let ?r1 = "?r\<lparr>rp_stats := gs_reset 0 (0, True) (rp_stats ?r), rp_constructed := True\<rparr>"
  let ?r2 = "?r1\<lparr>rp_thread := T_Loop, rp_mutex := Some By_thread\<rparr>"
  let ?r3 = "?r2\<lparr>rp_thread := T_Waiting, rp_mutex := None\<rparr>"
  let ?r4 = "?r3\<lparr>rp_destructor := D_Locked, rp_mutex := Some By_destructor\<rparr>"
  let ?r5 = "?r4\<lparr>rp_destructor := D_Joining, rp_terminated := True, rp_mutex := None,
    rp_thread := (if rp_thread ?r4 = T_Waiting then T_Woken else rp_thread ?r4)\<rparr>"
  have "reporter_step ?r ?r1" by (rule reporter_step.constructor) (simp add: new_reporter_def)
  moreover have "reporter_step ?r1 ?r2"
    by (rule reporter_step.thread, rule thread_step.lock) (simp_all add: new_reporter_def)
  moreover have "reporter_step ?r2 ?r3"
    by (rule reporter_step.thread, rule thread_step.wait) (simp_all add: new_reporter_def)
  moreover have "reporter_step ?r3 ?r4"
    by (rule reporter_step.destructor, rule destructor_step.lock) (simp_all add: new_reporter_def)
  moreover have "reporter_step ?r4 ?r5"
    by (rule reporter_step.destructor, rule destructor_step.terminate) simp
  ultimately have "reporter_step\<^sup>*\<^sup>* ?r ?r5"
    by (metis (no_types, lifting) converse_rtranclp_into_rtranclp r_into_rtranclp)
  then show ?thesis by (intro exI [of _ ?r5]) simp
qed

theorem reporter_ends_witness:
  "\<forall>junk period_us. \<exists>r r1 r2. reporter_step\<^sup>*\<^sup>* (new_reporter junk period_us) r \<and> rp_thread r = T_Woken \<and>
     thread_step\<^sup>*\<^sup>* r r1 \<and> rp_thread r1 = T_Done \<and> destructor_step r1 r2 \<and> rp_destructor r2 = D_Done"
proof (intro allI)
  fix junk period_us
  obtain r where r: "reporter_step\<^sup>*\<^sup>* (new_reporter junk period_us) r" "rp_destructor r = D_Joining" "rp_thread r = T_Woken"
    using wit_joining by blast
  from reporter_ends [OF r(1,2)] r show "\<exists>r r1 r2. reporter_step\<^sup>*\<^sup>* (new_reporter junk period_us) r \<and> rp_thread r = T_Woken \<and>
      thread_step\<^sup>*\<^sup>* r r1 \<and> rp_thread r1 = T_Done \<and> destructor_step r1 r2 \<and> rp_destructor r2 = D_Done"
    by blast
qed

end
