(* ===== verification/Spec2Isabelle.thy ===== *)
theory Spec2Isabelle
  imports Process Tap_Clients Reporter
begin

text \<open>
  Astaire keeps a cluster of memcached servers in step, and Rogers is the proxy through which
  clients use it. Every record belongs to one of 128 vbuckets, and every vbucket to a list of
  replicas. Rogers reads from and writes to the replicas of a key; Astaire runs beside each
  memcached and, after a restart or during a resize, streams the records of its vbuckets from
  the other replicas into the local memcached. The two programs meet in the records: Rogers
  stores the time of a write in the flags, by which Astaire decides which of two records is newer.

  \<^bold>\<open>Theories and the code they model\<close> (paths under \<^verbatim>\<open>src/\<close>)

  \<^item> Prelude: machine types, the outcome of a call (result, \<open>std::out_of_range\<close>, null pointer,
    blocked, exit), \<open>substr\<close>, \<open>std::to_string\<close>, \<open>std::map\<close> as a sorted association list, bytes of
    words in memory.
  \<^item> Wire (\<^verbatim>\<open>memcached_tap_client\<close>, namespace Memcached): \<open>OpCode\<close>, \<open>ResultCode\<close>, \<open>MsgHdr\<close>, the class
    hierarchy of messages as the datatype \<open>message\<close>, \<open>to_wire\<close>, \<open>is_msg_complete\<close>, \<open>from_wire\<close> and
    the parsing constructors. The locale \<open>framed_codec\<close> is the contract between parser and reader.
  \<^item> Connection (same files): \<open>send\<close>, \<open>recv\<close>, \<open>disconnect\<close>, \<open>connect\<close>. The socket is the list of
    results of the coming \<open>::recv\<close> calls, the other end a peer that answers what is sent.
  \<^item> Statistics (\<^verbatim>\<open>astaire_statistics\<close>): gauges, counters, the global and the per-connection
    recorder, what they publish and when. The locale \<open>stat_recorder\<close> is what both promise.
    Reporter: the reporting thread and the destructor that ends it, as the step relation
    \<open>reporter_step\<close>.
  \<^item> Tap (\<^verbatim>\<open>astaire.cpp\<close>, \<open>tap_buckets_thread\<close>): streaming the vbuckets of one server into the
    local memcached. Tap\_Merge: the thread refines the abstract merge in which the newest record
    wins, given the documented behaviour of memcached (\<open>shared_contract\<close>, and \<open>memcached_contract\<close>
    for a thread that has it for itself, with a reference server that satisfies it).
  \<^item> Resync (\<^verbatim>\<open>astaire.cpp\<close>, \<open>do_resync\<close> and below): work list, rounds of taps, blacklisting, alarm
    and logs. Resync\_Merge: with the tap threads of Tap as its threads, a resync refines the
    merge of all replicas.
  \<^item> Tap\_Parallel (\<^verbatim>\<open>astaire.cpp\<close>, \<open>process_worklist\<close> and the threads it starts): the tap threads of a
    round as processes whose requests to the local memcached interleave (\<open>tap_step\<close>, \<open>par_step\<close>,
    \<open>par_rounds\<close>). Tap\_Clients: the tap thread of Tap is such a process, next to other clients.
  \<^item> Control (\<^verbatim>\<open>astaire.cpp\<close>, \<open>control_thread\<close> and the handlers of signals): \<open>astaire_step\<close> is the
    step relation of the class under its lock.
  \<^item> Backend (\<^verbatim>\<open>memcached_backend\<close>): cluster view, reads, writes and deletes over the replicas, state
    of the vbuckets and its alarm.
  \<^item> Proxy (\<^verbatim>\<open>proxy_server\<close>): starting the server, the listener, the connection threads and their
    handlers; \<open>proxy_step\<close> is the step relation of the process. The locale \<open>request_handler\<close> is
    what every handler promises to the loop.
  \<^item> Mains (\<^verbatim>\<open>proxy_main.cpp\<close>, \<^verbatim>\<open>resync_main.cpp\<close>): options, the course of \<open>main\<close>, exit codes and
    lifetimes. The locale \<open>main_program\<close> holds what both programs have in common. Process: \<open>main\<close>
    with its handlers of SIGTERM, SIGSEGV and SIGABRT as the step relation \<open>process_step\<close>, and the
    problem determination logs (\<^verbatim>\<open>astaire_pd_definitions.hpp\<close>, \<^verbatim>\<open>rogers_pd_definitions.hpp\<close>).
  \<^item> This theory: timestamps across both programs, and the properties that span components.

  \<^bold>\<open>What is shown\<close>

  \<^item> Messages survive serialisation, parsing and any chunking by the network, on hosts of either
    byte order, in the classes of \<open>kept\<close>; what the others lose is stated. Malformed headers are
    followed to their effect.
  \<^item> A tap and a resync leave the local memcached with the newest of all records streamed, in
    particular with every write of Rogers that a replica still has; resyncs terminate, give each
    replica its turn in order, and report failure exactly when a vbucket was not streamed.
  \<^item> All interleavings of the parallel tap threads leave the same records. Whatever other clients
    do, a tap thread never overwrites a record that is not older, and records that Rogers writes
    meanwhile are kept. That a round taps each vbucket once is what this rests on.
  \<^item> No request for a resync is lost, and the control thread settles. How a process can end is
    stated for every moment a signal may arrive or another thread may exit; one that is told to
    terminate goes on to its return or, in Astaire, to the wait for its control thread, which need
    not end. The reporting thread ends with its recorder.
  \<^item> Reads, writes and deletes reach the replicas in order with the results stated, for any
    behaviour of libmemcached; the vbucket state follows the results, and its alarm follows that
    state with at least the update period between two calls.
  \<^item> Every request of a client is answered once, in order; the state of the server is consistent
    in every interleaving of listener, threads, clients and updater.
  \<^item> Errors the code does not handle are theorems too: an exception that ends the proxy, a failed
    creation of a thread that is not noticed, a starved lock, an interrupted tap that counts as
    success, a failed join that blacklists nobody, a sole replica whose late answer counts as a
    failure, a comparison of timestamps without meaning, objects deleted while in use.

  \<^bold>\<open>Parameters and bounds\<close>

  \<^item> libmemcached, the store view, the configuration reader and the address parsers of cpp-common,
    the MD5 hash, the clocks and the results of system calls are arguments of the definitions.
    What is assumed of them stands in each theorem (\<open>codes_ok\<close>, \<open>steady_reads\<close>, \<open>memcached_contract\<close>,
    \<open>good_cluster\<close>), and the witnesses instantiate it.
  \<^item> Integers have their width where it matters (lengths and flags 32 bits, status and vbucket 16,
    CAS 64). A message must be shorter than \<open>2 ^ 32\<close> bytes; timestamps are compared within \<open>2 ^ 31\<close>
    milliseconds. Their comparison subtracts signed numbers; where that overflows, C++ gives it no
    meaning and the model assumes that it wraps (\<open>ts_before\<close>). The properties about the newest
    record rest on this assumption for two records on either side of such a border, of which
    there is one every 50 days, and on nothing for all others (C37).
  \<^item> No definition has fuel. Loops are structural, or end by the measure given with them; the loop
    of a connection thread, which lasts as long as its client wants, is a partial function into
    \<open>option\<close>, and \<open>connection_thread_fn\<close> is shown to return for clients that close.
  \<^item> In Resync and Resync\_Merge the tap threads of a round run one after the other, in the order
    in which they are joined; Tap\_Parallel shows that the records do not depend on that. Of the
    CAS values it is assumed that none comes back while a thread still holds it. A turn of a connection thread, and an iteration of the control thread, is one step; the control
    thread holds its lock for that long.

  \<^bold>\<open>Not modelled\<close>

  \<^item> Trace logs, the tables of alarm definitions and the usage text; signals that arrive while a
    signal handler runs.
  \<^item> Memory management, except for the lifetimes in Mains; data races on the view of the
    backend, which is read without its lock.
  \<^item> Packaging, scripts and build files; cpp-common and libmemcached, which are not part of the
    sources.
\<close>

section \<open>Timestamps\<close>

text \<open>
  Rogers stores the low 32 bits of the time of a write, in milliseconds, as the flags of the
  record; Astaire orders records by them. \<open>stamps epoch\<close> are the flags of the writes of the
  \<open>2 ^ 31\<close> milliseconds (24 days) from \<open>epoch\<close> on, and \<open>stamp_time epoch\<close> gives the time back.
\<close>

definition millis :: "int \<Rightarrow> int \<Rightarrow> int" where
  "millis tv_sec tv_nsec = tv_sec * 1000 + tv_nsec div 1000000"

definition stamps :: "int \<Rightarrow> u32 set" where
  "stamps epoch = (\<lambda>(s, n). timestamp_flags s n) ` {(s, n). epoch \<le> millis s n \<and> millis s n < epoch + 2 ^ 31}"

definition stamp_time :: "int \<Rightarrow> u32 \<Rightarrow> int" where
  "stamp_time epoch f = epoch + uint (f - word_of_int epoch)"

lemma stamp_time_flags:
  assumes "epoch \<le> millis s n" "millis s n < epoch + 2 ^ 31"
  shows "stamp_time epoch (timestamp_flags s n) = millis s n"
proof -
  have "timestamp_flags s n - word_of_int epoch = word_of_int (millis s n - epoch)"
    by (simp add: timestamp_flags_def millis_def)
  moreover have "uint (word_of_int (millis s n - epoch) :: u32) = millis s n - epoch"
    using assms by (subst uint_word_of_int_eq) (simp add: take_bit_int_eq_self)
  ultimately show ?thesis by (simp add: stamp_time_def)
qed

lemma same_era_stamps: "same_era (stamp_time epoch) (stamps epoch)"
proof -
  have "word_of_int (stamp_time epoch f) = f" for f
    by (simp add: stamp_time_def)
  moreover have "epoch \<le> stamp_time epoch f \<and> stamp_time epoch f < epoch + 2 ^ 31" if "f \<in> stamps epoch" for f
    using that stamp_time_flags by (auto simp: stamps_def)
  ultimately show ?thesis unfolding same_era_def by (smt (verit))
qed

text \<open>The record a write request carries.\<close>

fun cmd_args :: "write_cmd \<Rightarrow> write_args" where
  "cmd_args (AddVb a) = a"
| "cmd_args (SetVb _ a) = a"
| "cmd_args (ReplaceVb a) = a"
| "cmd_args (CasVb a _) = a"

lemma conditional_cmd_args [simp]: "cmd_args (conditional_cmd operation cas args) = args"
  by (simp add: conditional_cmd_def)

lemma write_data_stamps:
  assumes "codes_ok (bn_lib E)" "operation \<in> {ADD, SET, REPLACE}" "be_sent b = []"
    and "write_data E t (s, n) operation key data cas expiry b w = (status, b', w')"
    and "(addr, SentWrite cmd) \<in> set (be_sent b')"
  shows "w_key (cmd_args cmd) = key" "w_data (cmd_args cmd) = data" "w_flags (cmd_args cmd) = timestamp_flags s n"
  using write_data_spec [OF assms(1,2) refl refl refl assms(4)] assms(3,5)
  by (auto simp: sent_all_def split: if_splits)

section \<open>Rogers as a client of a memcached that is being resynced\<close>

text \<open>A write request of Rogers as memcached carries it out.\<close>

definition applies_write :: "write_args \<Rightarrow> rely" where
  "applies_write args st st' \<longleftrightarrow>
     stores st st' (w_key args) (w_data args) (w_flags args) (word_of_int (w_expiry args))"

text \<open>
  A write at a time that is not before those of the record under the key and of the records \<open>S\<close>
  that are being streamed, and the writes of Rogers during a resync.
\<close>

definition in_turn :: "int \<Rightarrow> u32 set \<Rightarrow> int \<Rightarrow> int \<Rightarrow> bytes \<Rightarrow> (bytes \<rightharpoonup> item) \<Rightarrow> bool" where
  "in_turn epoch S sec nsec key st \<longleftrightarrow> epoch \<le> millis sec nsec \<and> millis sec nsec < epoch + 2 ^ 31 \<and>
     (\<forall>f \<in> S \<union> flags_at (abs_store st) key. stamp_time epoch f \<le> millis sec nsec)"

definition rogers_clients :: "int \<Rightarrow> u32 set \<Rightarrow> rely" where
  "rogers_clients epoch S st st' \<longleftrightarrow>
     (\<exists>args sec nsec. w_flags args = timestamp_flags sec nsec \<and> in_turn epoch S sec nsec (w_key args) st \<and>
        applies_write args st st')"

lemma written_newer:
  assumes "in_turn epoch S sec nsec (w_key args) st" "applies_write args st st'"
    and "w_flags args = timestamp_flags sec nsec"
  shows "newer_clients (stamp_time epoch) (stamps epoch) S st st'"
proof -
  have time: "stamp_time epoch (timestamp_flags sec nsec) = millis sec nsec" "timestamp_flags sec nsec \<in> stamps epoch"
    using assms(1) stamp_time_flags by (auto simp: in_turn_def stamps_def)
  have old: "stamp_time epoch (i_flags it) \<le> millis sec nsec" if "st (w_key args) = Some it" for it
    using assms(1) that by (auto simp: in_turn_def flags_at_def abs_store_def rec_of_def)
  show ?thesis
    using assms time old by (auto simp: newer_clients_def applies_write_def stores_def in_turn_def)
qed

lemma rogers_clients_newer:
  "rogers_clients epoch S st st' \<Longrightarrow> newer_clients (stamp_time epoch) (stamps epoch) S st st'"
  unfolding rogers_clients_def using written_newer by blast

lemma par_run_mono:
  assumes "(par_step hash clients)\<^sup>*\<^sup>* x y" "\<And>st st'. clients st st' \<Longrightarrow> clients' st st'"
  shows "(par_step hash clients')\<^sup>*\<^sup>* x y"
  using assms(1)
proof (rule rtranclp_mono [THEN predicate2D, rotated])
  show "par_step hash clients \<le> par_step hash clients'"
    using assms(2) by (auto elim!: par_step.cases intro: par_step.intros)
qed

section \<open>Properties\<close>

text \<open>
  Rogers and Astaire agree on the vbucket of a key, so that Astaire streams a record from
  the replicas to which Rogers wrote it: both mask the hash of the key with 127.
\<close>

lemma vbuckets_agree:
  "be_vbucket_for_key E key = unat (vbucket_for_key (bn_hash E) key) \<and>
   be_vbucket_for_key E key = unat (bn_hash E key) mod 128"
  using vbucket_for_key_range [of "bn_hash E" key]
  by (simp add: be_vbucket_for_key_def vbuckets_def unat_and_127)

text \<open>
  C1: A write through Rogers is not lost in a resync. Let every record of the cluster carry the
  timestamp of a write by Rogers within the same \<open>2 ^ 31\<close> milliseconds, and let some replica
  of the vbucket still hold the record of a write. After the resync the local memcached has,
  under the key, the record of that write or of a later one.
\<close>

theorem rogers_write_survives_resync:
  assumes "codes_ok (bn_lib E)" "operation \<in> {ADD, SET, REPLACE}" "be_sent b = []"
    and "write_data E tm (sec, nsec) operation key data cas expiry b w = (status, b', w')"
    and "(addr, SentWrite cmd) \<in> set (be_sent b')" "epoch \<le> millis sec nsec" "millis sec nsec < epoch + 2 ^ 31"
    and "runs_taps env shp local_env tap_env (bn_hash E) oob clk peer view tap_peer t pre content"
    and "small (view (sh_world (rs_shared s)))"
    and "\<forall>r. mutate_flags ` set (content r) \<subseteq> stamps epoch"
    and "flags_at (abs_store (view (sh_world (rs_shared s)))) key \<subseteq> stamps epoch"
    and "\<not> starts_with ASTAIRE_KEY_PREFIX key"
    and "map_of (calculate_worklist (re_self env) v full) (vbucket_for_key (bn_hash E) key) = Some replica_list"
    and "r \<in> set replica_list" "m \<in> set (content r)"
    and "m_key (msg_base m) = w_key (cmd_args cmd)" "mutate_flags m = w_flags (cmd_args cmd)"
  shows "\<exists>s' val g e. do_resync env alarm v full s = Returns s' \<and>
    abs_store (view (sh_world (rs_shared s'))) key = Some (val, g, e) \<and> millis sec nsec \<le> stamp_time epoch g"
proof -
  note args = write_data_stamps [OF assms(1-5)]
  have "era_cluster (stamp_time epoch) (stamps epoch) content"
    using same_era_stamps assms(10) by (simp add: era_cluster_def)
  moreover have "era_store (stamps epoch) key (abs_store (view (sh_world (rs_shared s))))"
    using assms(11) by (simp add: era_store_def)
  ultimately obtain s' g where "do_resync env alarm v full s = Returns s'"
      "g \<in> flags_at (abs_store (view (sh_world (rs_shared s')))) key"
      "stamp_time epoch (mutate_flags m) \<le> stamp_time epoch g"
    using resync_newest [OF assms(8,9) _ _ assms(12-15)] assms(16) args(1) by blast
  moreover have "stamp_time epoch (mutate_flags m) = millis sec nsec"
    using assms(17) args(3) stamp_time_flags [OF assms(6,7)] by simp
  ultimately show ?thesis
    by (auto simp: flags_at_def split: option.splits)
qed

definition wit_rogers :: "(unit, store_view) backend_env" where
  "wit_rogers = wit_backend_env\<lparr>bn_hash := \<lambda>_. 1\<rparr>"

lemma wit_rogers_write:
  "(wit_addrs ! 0, SentWrite (SetVb False \<lparr>w_key = [1], w_vbucket = 1, w_data = [2], w_expiry = 0, w_flags = 9\<rparr>)) \<in>
     set (be_sent (fst (snd (write_data wit_rogers (5, 6) (0, 9000000) SET [1] [2] 0 0 wit_backend ()))))"
proof -
  obtain status b' w' where wr: "write_data wit_rogers (5, 6) (0, 9000000) SET [1] [2] 0 0 wit_backend () = (status, b', w')"
    by (metis prod_cases3)
  have lib: "bn_lib wit_rogers = wit_lib" by (simp add: wit_rogers_def wit_backend_env_def)
  have vb: "be_vbucket_for_key wit_rogers [1] = 1"
    by (simp add: be_vbucket_for_key_def wit_rogers_def vbuckets_def)
  have addrs: "get_replica_addresses wit_rogers wit_backend (be_vbucket_for_key wit_rogers [1]) WRITE = wit_addrs"
    unfolding vb
    by (simp add: get_replica_addresses_def wit_backend_def vbuckets_def)
      (simp add: wit_rogers_def wit_backend_env_def List.map_filter_simps wit_addrs_def)
  from write_data_spec [OF wit_codes [folded lib] _ addrs [symmetric] refl wit_write_trace [folded lib, symmetric] wr]
  have "be_sent b' = be_sent wit_backend @ sent_all (SentWrite (conditional_cmd SET 0
      \<lparr>w_key = [1], w_vbucket = 1, w_data = [2], w_expiry = 0, w_flags = 9\<rparr>)) [wit_addrs ! 0, wit_addrs ! 1] @
      (if status = NO_ERROR then sent_all (SentWrite (SetVb True
        \<lparr>w_key = [1], w_vbucket = 1, w_data = [2], w_expiry = 0, w_flags = 9\<rparr>)) (drop 2 wit_addrs) else [])"
    by (simp add: vb timestamp_flags_def numeral_2_eq_2)
  then show ?thesis by (simp add: wr conditional_cmd_def sent_all_def)
qed

theorem rogers_write_survives_resync_witness:
  "\<exists>s' val g e. do_resync wit_merge_env True wit_view False wit_merge_state = Returns s' \<and>
     abs_store (fst (sh_world (rs_shared s'))) [1] = Some (val, g, e) \<and> 9 \<le> stamp_time 0 g"
proof -
  let ?wr = "write_data wit_rogers (5, 6) (0, 9000000) SET [1] [2] 0 0 wit_backend ()"
  have lib: "codes_ok (bn_lib wit_rogers)" using wit_codes by (simp add: wit_rogers_def wit_backend_env_def)
  have hash: "bn_hash wit_rogers = (\<lambda>_. 1)" by (simp add: wit_rogers_def)
  have "9 \<in> stamps 0"
    by (auto simp: stamps_def timestamp_flags_def millis_def intro!: image_eqI [of _ _ "(0, 9000000)"])
  then have era: "\<forall>r. mutate_flags ` set (wit_content r) \<subseteq> stamps 0" by (auto simp: wit_content_def wit_mutation_def)
  have owl: "calculate_worklist (re_self wit_merge_env) wit_view False = [(1, [''b'', ''c''])]"
    by (simp add: calculate_worklist_def wit_view_def worklist_step_def is_in_vector_def
        source_replicas_def smap_get_def wit_merge_env_def)
  have nil: "be_sent wit_backend = []" and "small (fst (sh_world (rs_shared wit_merge_state)))"
      "flags_at (abs_store (fst (sh_world (rs_shared wit_merge_state)))) [1] \<subseteq> stamps 0"
      "\<not> starts_with ASTAIRE_KEY_PREFIX [1]"
    by (simp_all add: wit_merge_state_def small_def wit_backend_def new_MemcachedBackend_def flags_at_def
        starts_with_def ASTAIRE_KEY_PREFIX_def ascii_def)
  moreover have wr: "?wr = (fst ?wr, fst (snd ?wr), snd (snd ?wr))" by (simp only: prod.collapse)
  ultimately show ?thesis
    using rogers_write_survives_resync [OF lib _ nil wr wit_rogers_write _ _ wit_runs_taps [folded hash] _ era,
        where v = wit_view and full = False and s = wit_merge_state and
          replica_list = "[''b'', ''c'']" and r = "''b''" and m = wit_mutation and alarm = True]
    by (simp add: owl hash vbucket_for_key_def wit_content_def wit_mutation_def millis_def)
qed

text \<open>
  C2: A record that Rogers writes to a memcached while tap threads stream into it is kept.
  Let the tap threads of a round and Rogers work on the memcached in any order, where Rogers
  writes at times not before those of the records it overwrites and of the records that are
  being streamed. When Rogers sends a write of its own to the memcached in the middle of this,
  the memcached has, at every later moment, that record or the record of a later time.
\<close>

theorem rogers_write_during_resync_kept:
  assumes "newest_start (stamp_time epoch) (stamps epoch) S st0 ps0"
    and "(par_step hash (rogers_clients epoch S))\<^sup>*\<^sup>* (st0, ps0) (st1, ps1)"
    and "codes_ok (bn_lib E)" "operation \<in> {ADD, SET, REPLACE}" "be_sent b = []"
    and "write_data E tm (sec, nsec) operation key data cas expiry b w = (status, b', w')"
    and "(addr, SentWrite cmd) \<in> set (be_sent b')"
    and "in_turn epoch S sec nsec key st1" "applies_write (cmd_args cmd) st1 st2" "fresh_cas ps1 st1 st2"
    and "(par_step hash (rogers_clients epoch S))\<^sup>*\<^sup>* (st2, ps1) (st3, ps3)"
  shows "\<exists>val g e. abs_store st3 key = Some (val, g, e) \<and> millis sec nsec \<le> stamp_time epoch g"
proof -
  note args = write_data_stamps [OF assms(3-7)]
  let ?step = "par_step hash (newer_clients (stamp_time epoch) (stamps epoch) S)"
  note run1 = par_run_mono [OF assms(2) rogers_clients_newer] and run2 = par_run_mono [OF assms(11) rogers_clients_newer]
  have written: "newer_clients (stamp_time epoch) (stamps epoch) S st1 st2"
    using assms(8,9) args by (intro written_newer [of epoch S sec nsec "cmd_args cmd"]) simp_all
  have "?step (st1, ps1) (st2, ps1)" using written assms(10) by (rule par_step.client)
  with run1 have "?step\<^sup>*\<^sup>* (st0, ps0) (st2, ps1)" by (rule rtranclp.rtrancl_into_rtrancl)
  from run_grows [OF this assms(1) run2] have grows: "grows (stamp_time epoch) st2 st3" .
  have "at_least (stamp_time epoch) key (timestamp_flags sec nsec) (abs_store st2)"
    using assms(9) args by (auto simp: at_least_item applies_write_def stores_def)
  from grows_at_least [OF grows this] have
    "\<exists>val g e. abs_store st3 key = Some (val, g, e) \<and> stamp_time epoch (timestamp_flags sec nsec) \<le> stamp_time epoch g"
    by (auto simp: at_least_def flags_at_def split: option.splits)
  moreover have "stamp_time epoch (timestamp_flags sec nsec) = millis sec nsec"
    using assms(8) by (simp add: in_turn_def stamp_time_flags)
  ultimately show ?thesis by simp
qed

text \<open>The witness: Rogers writes between the GET and the ADD of a tap.\<close>

theorem rogers_write_during_resync_kept_witness:
  "\<exists>st val g e. (par_step (\<lambda>_. 7) (rogers_clients 0 {9}))\<^sup>*\<^sup>*
       ([[1] \<mapsto> \<lparr>i_value = [2], i_flags = 9, i_expiry = 0, i_cas = 3\<rparr>], [proc [0, 7] [wit_mutation] (Looked_up None)])
       (st, [proc [0, 7] [] Idle]) \<and>
     abs_store st [1] = Some (val, g, e) \<and> 9 \<le> stamp_time 0 g"
proof -
  let ?wr = "write_data wit_rogers (5, 6) (0, 9000000) SET [1] [2] 0 0 wit_backend ()"
  let ?st = "[[1] \<mapsto> \<lparr>i_value = [2], i_flags = 9, i_expiry = 0, i_cas = 3\<rparr>]"
    and ?p = "\<lambda>ms ph. [proc [0, 7] ms ph]" and ?step = "par_step (\<lambda>_. 7) (rogers_clients 0 {9})"
  have lib: "codes_ok (bn_lib wit_rogers)" using wit_codes by (simp add: wit_rogers_def wit_backend_env_def)
  have nil: "be_sent wit_backend = []" by (simp add: wit_backend_def new_MemcachedBackend_def)
  have stamp: "9 \<in> stamps 0" "stamp_time 0 9 = 9"
    by (auto simp: stamps_def timestamp_flags_def millis_def stamp_time_def intro!: image_eqI [of _ _ "(0, 9000000)"])
  then have init: "newest_start (stamp_time 0) (stamps 0) {9} Map.empty (?p [wit_mutation] Idle)"
    by (auto simp: newest_start_def same_era_stamps era_def disjoint_taps_def wit_accepted)
  have look: "?step\<^sup>*\<^sup>* (Map.empty, ?p [wit_mutation] Idle) (Map.empty, ?p [wit_mutation] (Looked_up None))"
    using wit_look by (rule r_into_rtranclp)
  have turn: "in_turn 0 {9} 0 9000000 [1] Map.empty"
    by (simp add: in_turn_def millis_def stamp flags_at_def)
  have applied: "applies_write \<lparr>w_key = [1], w_vbucket = 1, w_data = [2], w_expiry = 0, w_flags = 9\<rparr> Map.empty ?st"
    by (auto simp: applies_write_def stores_def)
  have "tap_step (\<lambda>_. 7) ?st (proc [0, 7] [wit_mutation] (Looked_up None)) ?st (proc [0, 7] [] Idle)"
    using tap_step.add [of "proc [0, 7] [wit_mutation] (Looked_up None)" wit_mutation "[]" ?st ?st "\<lambda>_. 7"]
    by (auto simp: wit_accepted add_item_def)
  then have run: "?step\<^sup>*\<^sup>* (?st, ?p [wit_mutation] (Looked_up None)) (?st, ?p [] Idle)"
    by (intro r_into_rtranclp single_steps(3)) auto
  have wr: "?wr = (fst ?wr, fst (snd ?wr), snd (snd ?wr))" by (simp only: prod.collapse)
  have "\<exists>val g e. abs_store ?st [1] = Some (val, g, e) \<and> millis 0 9000000 \<le> stamp_time 0 g"
  proof (rule rogers_write_during_resync_kept [OF init look lib _ nil wr wit_rogers_write turn _ _ run])
    show "applies_write (cmd_args (SetVb False \<lparr>w_key = [1], w_vbucket = 1, w_data = [2], w_expiry = 0, w_flags = 9\<rparr>)) Map.empty ?st"
      using applied by simp
    show "fresh_cas (?p [wit_mutation] (Looked_up None)) Map.empty ?st" by (simp add: fresh_cas_single)
  qed simp
  moreover have "millis 0 9000000 = 9" by (simp add: millis_def)
  ultimately show ?thesis using run by metis
qed

text \<open>
  C15: A GET through Rogers brings back the record of the first replica that has it: the bytes of
  the response parse, at the client, to a response without error with the value of that replica
  and the opaque value of the request.
\<close>

theorem get_returns_replica_value:
  assumes "codes_ok (bn_lib (pe_backend E))" "m_op_code req = op_byte GET"
    and "xs @ a # ys = get_replica_addresses (pe_backend E) (st_backend st) (be_vbucket_for_key (pe_backend E) (m_key req)) READ"
    and "steady_reads (bn_lib (pe_backend E)) (set (xs @ a # ys)) (m_key req) res"
    and "lm_success (bn_lib (pe_backend E)) (fst (res a))"
    and "\<forall>x \<in> set xs. \<not> lm_success (bn_lib (pe_backend E)) (fst (res x))"
    and "length (fst (snd (res a))) < 2 ^ 32 - 28"
  shows "\<exists>rsp st' b. handle_get E client (Some req) th st = Returns (reply client rsp th, st') \<and>
    from_wire oob (to_wire rsp) = Returns (Some (GetRsp b (result_u16 NO_ERROR) (fst (snd (res a))) 0, [])) \<and>
    m_opaque b = m_opaque req"
proof -
  let ?n = "st_calls st"
  obtain status val cas be w where
    rd: "read_data (pe_backend E) (monotonic_ms E ?n) (m_key req) [] (pe_cas E ?n) (st_backend st) (st_world st) =
      (status, val, cas, be, w)"
    by (metis prod_cases5)
  have res: "status = NO_ERROR" "val = fst (snd (res a))"
    using read_data_steady [OF assms(1,3-6) rd] by simp_all
  let ?rsp = "new_GetRsp (result_u16 NO_ERROR) (m_opaque req) cas val 0 []"
  have "handle_get E client (Some req) th st =
      Returns (reply client ?rsp th, \<lparr>st_backend = be, st_world = w, st_calls = ?n + 1\<rparr>)"
    using assms(2) by (simp add: handle_get_def rd res(1) response_needs_key_def Let_def)
  moreover have "from_wire oob (to_wire ?rsp) = Returns (Some (?rsp, []))"
    using from_wire_to_wire [of ?rsp "[]" oob] assms(7) res(2)
    by (simp add: new_GetRsp_def base_def length_to_wire)
  ultimately show ?thesis
    by (auto simp: new_GetRsp_def base_def res(2) Let_def)
qed

definition wit_thread :: "unit thread" where
  "wit_thread = \<lparr>th_phase = Running, th_conn = new_ServerConnection 4 ''a'' [], th_client = (), th_sent = []\<rparr>"

theorem get_returns_replica_value_witness:
  "\<exists>rsp st' b. handle_get wit_proxy_env (\<lambda>p bs. (p, True, [])) (Some (base GET [1] 7 0)) wit_thread wit_store =
      Returns (reply (\<lambda>p bs. (p, True, [])) rsp wit_thread, st') \<and>
    from_wire (\<lambda>_. 0) (to_wire rsp) = Returns (Some (GetRsp b 0 [5] 0, [])) \<and> m_opaque b = 7"
proof -
  let ?res = "\<lambda>a. if ai_port a = 1 then (MEMCACHED_NOTFOUND, [], 0) else (MEMCACHED_SUCCESS, [5], 9 :: u64)"
  let ?E = "pe_backend wit_proxy_env"
  have env: "?E = wit_backend_env" "bn_lib wit_backend_env = wit_lib" "st_backend wit_store = wit_backend"
    by (simp_all add: wit_proxy_env_def wit_backend_env_def wit_store_def)
  have addrs: "[wit_addrs ! 0] @ wit_addrs ! 1 # [wit_addrs ! 2] =
      get_replica_addresses ?E (st_backend wit_store) (be_vbucket_for_key ?E (m_key (base GET [1] 7 0))) READ"
    by (simp add: env wit_replicas) (simp add: wit_addrs_def)
  have "steady_reads (bn_lib ?E) A (m_key (base GET [1] 7 0)) ?res" for A
    by (auto simp: env steady_reads_def get_from_replica_def wit_lib_def)
  from get_returns_replica_value [OF _ _ addrs this, of "\<lambda>p bs. (p, True, [])" wit_thread "\<lambda>_. 0"] show ?thesis
    using wit_codes by (simp add: env base_def wit_addrs_def wit_lib_def)
qed

end
